theory Spec2Isabelle
  imports Main "HOL-Library.Word"
begin

section \<open>Bytes, words and the host\<close>

type_synonym byte = "8 word"

text \<open>
  \<open>sizeof(uint)\<close>: the codec's word is the host's \<open>unsigned int\<close>, four bytes
  (spec, section 3 and glossary).
\<close>

definition sizeof_uint :: nat where
  "sizeof_uint = 4"

text \<open>
  A C++ object of a trivially copyable type \<open>T\<close> is modelled by its object
  representation, the list of its \<open>sizeof(T)\<close> bytes in address order. A
  \<open>reinterpret_cast\<close> of a pointer then reads or overwrites a prefix of that list.
\<close>

definition store :: "byte list \<Rightarrow> byte list \<Rightarrow> byte list" where
  \<comment> \<open>copy \<open>src\<close> over the first bytes of the buffer \<open>dst\<close>; the rest of \<open>dst\<close> stays\<close>
  "store src dst = src @ drop (length src) dst"

datatype endian = Little | Big

definition le_bytes :: "32 word \<Rightarrow> byte list" where
  "le_bytes w = [ucast w, ucast (drop_bit 8 w), ucast (drop_bit 16 w), ucast (drop_bit 24 w)]"

definition int_bytes :: "endian \<Rightarrow> 32 word \<Rightarrow> byte list" where
  \<comment> \<open>object representation of a 32-bit integer on the host\<close>
  "int_bytes h w = (case h of Little \<Rightarrow> le_bytes w | Big \<Rightarrow> rev (le_bytes w))"

definition swab :: "byte list \<Rightarrow> byte list" where
  \<comment> \<open>Modelled from the spec: \<open>swab\<close> is called by \<open>XDR::read\<close> and \<open>XDR::write\<close> but
      its template is not in the \<open>utils.hpp\<close> at hand. Section 4.1 of the spec calls it the
      byte swap that normalises host byte order: the bytes of the object, reversed.\<close>
  "swab v = rev v"

datatype error = LogicError string | FileReadError string

section \<open>The underlying \<open>std::iostream\<close>\<close>

text \<open>
  The codec uses four members of the standard stream: \<open>read\<close>, \<open>write\<close>, \<open>fail\<close>
  and (through the writer) \<open>seekp\<close>/\<open>tellp\<close>. The stream is a byte sequence with a get
  and a put position and one failure flag (\<open>fail()\<close> is \<open>failbit | badbit\<close>).
  \<open>cap\<close> is the size the device can hold: a write that does not fit puts what fits
  and fails. As in the standard library, a transfer on a failed stream does nothing,
  and a read that meets the end of the data before \<open>n\<close> bytes delivers the bytes
  there are and sets the failure flag.
\<close>

record iostream =
  content :: "byte list"
  gpos :: nat
  ppos :: nat
  failed :: bool
  cap :: nat

definition stream_read :: "nat \<Rightarrow> iostream \<Rightarrow> byte list \<times> iostream" where
  "stream_read n s =
     (if failed s then ([], s)
      else let got = take n (drop (gpos s) (content s))
           in (got, s\<lparr>gpos := gpos s + length got, failed := length got < n\<rparr>))"

definition stream_write :: "byte list \<Rightarrow> iostream \<Rightarrow> iostream" where
  "stream_write bs s =
     (if failed s then s
      else let put = take (cap s - ppos s) bs
           in s\<lparr>content := take (ppos s) (content s) @ put
                               @ drop (ppos s + length put) (content s),
                 ppos := ppos s + length put,
                 failed := length put < length bs\<rparr>)"

definition tellp :: "iostream \<Rightarrow> nat" where
  "tellp s = ppos s"

definition seekp :: "nat \<Rightarrow> iostream \<Rightarrow> iostream" where
  "seekp p s =
     (if failed s then s
      else if p \<le> length (content s) then s\<lparr>ppos := p\<rparr>
      else s\<lparr>failed := True\<rparr>)"

section \<open>The word codec (\<open>xdr.hpp\<close>)\<close>

record xdr =
  stream :: iostream
  need_to_swab :: bool

definition XDR :: "endian \<Rightarrow> iostream \<Rightarrow> xdr" where
  \<comment> \<open>the constructor: \<open>int test = 0x1234\<close>, and the first byte of \<open>test\<close> is compared
      with \<open>0x34\<close>\<close>
  "XDR host s =
     \<lparr>stream = s, need_to_swab = (hd (int_bytes host 0x1234) = 0x34)\<rparr>"

definition block_size :: "xdr \<Rightarrow> nat" where
  "block_size x = sizeof_uint"

text \<open>
  \<open>template<typename T> uint read(T* p)\<close>. \<open>sz\<close> is \<open>sizeof(T)\<close> and \<open>data0\<close>
  is what the uninitialised local \<open>uint data\<close> holds before the stream fills it.
  The result is the return value, the object stored to \<open>*p\<close> and the codec after
  the call; the \<open>throw\<close> is \<open>Inl\<close>.
\<close>

definition xdr_read :: "nat \<Rightarrow> byte list \<Rightarrow> xdr \<Rightarrow> error + (nat \<times> byte list \<times> xdr)" where
  "xdr_read sz data0 x =
     (if sz > sizeof_uint
      then Inl (LogicError ''Attempting to read a POD that is too large'')
      else let (got, s') = stream_read sizeof_uint (stream x);
               data = store got data0;
               result = take sz data;
               result = (if sz > 1 \<and> need_to_swab x then swab result else result)
           in Inr (of_bool (\<not> failed s'), result, x\<lparr>stream := s'\<rparr>))"

text \<open>
  \<open>template<typename T> uint write(T* p)\<close>. \<open>v\<close> is the object \<open>*p\<close>, so
  \<open>sizeof(T)\<close> is \<open>length v\<close>; \<open>u0\<close> is what the uninitialised local \<open>uint u\<close>
  holds before \<open>*up = *p\<close> overwrites its first \<open>sizeof(T)\<close> bytes.
\<close>

definition xdr_write :: "byte list \<Rightarrow> byte list \<Rightarrow> xdr \<Rightarrow> error + (nat \<times> xdr)" where
  "xdr_write v u0 x =
     (if length v > sizeof_uint
      then Inl (LogicError ''Attempting to write a POD that is too large'')
      else let u = store v u0;
               u = (if length v > 1 \<and> need_to_swab x then swab u else u);
               s' = stream_write u (stream x)
           in Inr (of_bool (\<not> failed s'), x\<lparr>stream := s'\<rparr>))"

text \<open>
  \<open>uint read(char* p, uint n)\<close>: \<open>p\<close> is the caller's buffer before the call. The
  padding goes to a function-local static buffer that nothing else reads.
\<close>

definition xdr_read_block :: "byte list \<Rightarrow> nat \<Rightarrow> xdr \<Rightarrow> nat \<times> byte list \<times> xdr" where
  "xdr_read_block p n x =
     (if n = 0 then (1, p, x)
      else let rndup = n mod sizeof_uint;
               rndup = (if rndup > 0 then sizeof_uint - rndup else rndup);
               (got, s1) = stream_read n (stream x);
               p' = store got p
           in if failed s1 then (0, p', x\<lparr>stream := s1\<rparr>)
              else let s2 = (if rndup \<noteq> 0 then snd (stream_read rndup s1) else s1)
                   in (n, p', x\<lparr>stream := s2\<rparr>))"

text \<open>
  \<open>uint write(char* p, const uint n)\<close>: \<open>p\<close> holds at least \<open>n\<close> bytes. The static
  \<open>buf\<close> is zeroed on every call (\<open>init\<close> is never set).
\<close>

definition xdr_write_block :: "byte list \<Rightarrow> nat \<Rightarrow> xdr \<Rightarrow> nat \<times> xdr" where
  "xdr_write_block p n x =
     (let buf = replicate sizeof_uint (0 :: byte);
          rndup = n mod sizeof_uint;
          rndup = (if rndup > 0 then sizeof_uint - rndup else rndup);
          s1 = stream_write (take n p) (stream x);
          s2 = (if \<not> failed s1 then stream_write (take rndup buf) s1 else s1)
      in ((if failed s2 then 0 else n), x\<lparr>stream := s2\<rparr>))"

section \<open>\<open>uint\<close> arithmetic\<close>

text \<open>
  The frame counters of \<open>MultiTraj.cpp\<close> are \<open>uint\<close>: the parameter \<open>i\<close> and the
  locals \<open>j\<close>, \<open>k\<close> and \<open>n\<close> are declared so in the file, and the members they
  are computed from and stored to (\<open>_nframes\<close>, \<open>_skip\<close>, \<open>_stride\<close>,
  \<open>_curframe\<close>), declared in \<open>MultiTraj.hpp\<close>, are taken to be \<open>uint\<close> as well.
  They are modelled as natural numbers with the 32-bit wrap-around of \<open>+\<close>, \<open>-\<close>
  and \<open>*\<close> written out. The index \<open>_curtraj\<close> is only incremented below the
  size of the source list and does not wrap.
\<close>

definition uint_max :: nat where
  "uint_max = 2 ^ 32"

definition uadd :: "nat \<Rightarrow> nat \<Rightarrow> nat" where
  "uadd a b = (a + b) mod uint_max"

definition usub :: "nat \<Rightarrow> nat \<Rightarrow> nat" where
  "usub a b = (a + uint_max - b mod uint_max) mod uint_max"

definition umul :: "nat \<Rightarrow> nat \<Rightarrow> nat" where
  "umul a b = (a * b) mod uint_max"

section \<open>Trajectory sources\<close>

text \<open>
  \<open>MultiTraj.cpp\<close> drives its sources through four members of the \<open>Trajectory\<close>
  class, whose code is not at hand; they are modelled from section 6 of the spec
  (\<open>nativeFrameCount\<close>, \<open>rewindToStart\<close>, \<open>loadFrame\<close>, \<open>copyCoordinatesInto\<close>).
  A source holds its native frames (\<open>'c\<close> is the coordinate data of one frame), an
  internal position, and the frame it has materialised last, if any.
\<close>

record 'c trajectory =
  frames :: "'c list"
  tpos :: nat
  loaded :: "'c option"

definition traj_nframes :: "'c trajectory \<Rightarrow> nat" where
  \<comment> \<open>Modelled from the spec: \<open>Trajectory::nframes()\<close>, the native frame count.\<close>
  "traj_nframes t = length (frames t)"

definition traj_rewind :: "'c trajectory \<Rightarrow> 'c trajectory" where
  \<comment> \<open>Modelled from the spec: \<open>Trajectory::rewind()\<close> resets the internal position.\<close>
  "traj_rewind t = t\<lparr>tpos := 0\<rparr>"

definition traj_readFrame :: "nat \<Rightarrow> 'c trajectory \<Rightarrow> bool \<times> 'c trajectory" where
  \<comment> \<open>Modelled from the spec: \<open>Trajectory::readFrame(i)\<close> loads the frame at the absolute
      native offset \<open>i\<close> and reports success; there is no frame to load past the end.\<close>
  "traj_readFrame i t =
     (if i < length (frames t) then (True, t\<lparr>tpos := i + 1, loaded := Some (frames t ! i)\<rparr>)
      else (False, t))"

definition traj_updateGroupCoords :: "'c trajectory \<Rightarrow> 'c \<Rightarrow> 'c" where
  \<comment> \<open>Modelled from the spec: \<open>Trajectory::updateGroupCoords(g)\<close> copies the coordinates
      of the materialised frame into the group, given here by its coordinates.\<close>
  "traj_updateGroupCoords t g = (case loaded t of Some c \<Rightarrow> c | None \<Rightarrow> g)"

section \<open>The stream composer (\<open>MultiTraj.cpp\<close>)\<close>

text \<open>
  The members \<open>_trajectories\<close>, \<open>_nframes\<close>, \<open>_skip\<close>, \<open>_stride\<close>, \<open>_curtraj\<close>
  and \<open>_curframe\<close>; an Isabelle name cannot start with an underscore, so each is
  prefixed with \<open>mt\<close>.
\<close>

record 'c multitraj =
  mt_trajectories :: "'c trajectory list"
  mt_nframes :: nat
  mt_skip :: nat
  mt_stride :: nat
  mt_curtraj :: nat
  mt_curframe :: nat

definition eof :: "'c multitraj \<Rightarrow> bool" where
  \<comment> \<open>Modelled from the spec: \<open>eof()\<close> is declared in \<open>MultiTraj.hpp\<close>, which is not at
      hand. Section 4.3: \<open>atEnd = source_index >= numSources\<close>.\<close>
  "eof s = (mt_curtraj s \<ge> length (mt_trajectories s))"

definition nframes :: "'c multitraj \<Rightarrow> nat \<Rightarrow> nat" where
  \<comment> \<open>Modelled from the spec: \<open>nframes(k)\<close>, the usable frame count of source \<open>k\<close>, is
      declared in \<open>MultiTraj.hpp\<close>. Section 4.3: \<open>floor((nativeCount - skip - 1) / stride) + 1\<close>
      when \<open>nativeCount > skip\<close>, else 0.\<close>
  "nframes s k =
     (let n = traj_nframes (mt_trajectories s ! k)
      in if n > mt_skip s then (n - mt_skip s - 1) div mt_stride s + 1 else 0)"

definition skip :: "'c multitraj \<Rightarrow> nat" where
  \<comment> \<open>Modelled from the spec: \<open>rewindImpl\<close> assigns \<open>skip\<close>, a name that only
      \<open>MultiTraj.hpp\<close> can declare. Section 4.3 has rewind set \<open>native_offset = skip\<close>,
      the number of leading frames discarded from every source, which is \<open>_skip\<close>.\<close>
  "skip s = mt_skip s"

function findNextUsableTraj :: "'c multitraj \<Rightarrow> 'c multitraj" where
  "findNextUsableTraj s =
     (if mt_curtraj s < length (mt_trajectories s)
      then (if traj_nframes (mt_trajectories s ! mt_curtraj s) > mt_skip s then s
            else findNextUsableTraj (s\<lparr>mt_curtraj := mt_curtraj s + 1\<rparr>))
      else s)"
  by pat_completeness auto
termination
  by (relation "measure (\<lambda>s. length (mt_trajectories s) - mt_curtraj s)") auto

definition rewindImpl :: "'c multitraj \<Rightarrow> 'c multitraj" where
  "rewindImpl s =
     (let s1 = s\<lparr>mt_trajectories := map traj_rewind (mt_trajectories s)\<rparr>;
          s2 = s1\<lparr>mt_curtraj := 0\<rparr>;
          s3 = s2\<lparr>mt_curframe := skip s2\<rparr>;
          s4 = findNextUsableTraj s3
      in if \<not> eof s4
         then s4\<lparr>mt_trajectories := (mt_trajectories s4)
                  [mt_curtraj s4 :=
                     snd (traj_readFrame (mt_curframe s4) (mt_trajectories s4 ! mt_curtraj s4))]\<rparr>
         else s4)"

text \<open>The loop of \<open>frameIndexToLocation\<close>, on its variables \<open>k\<close> and \<open>j\<close>.\<close>

function frameIndexToLocation_loop :: "'c multitraj \<Rightarrow> nat \<Rightarrow> nat \<Rightarrow> nat \<Rightarrow> nat \<times> nat" where
  "frameIndexToLocation_loop s i k j =
     (if k < length (mt_trajectories s)
      then (let n = nframes s k
            in if uadd j n > i then (k, j)
               else frameIndexToLocation_loop s i (k + 1) (uadd j n))
      else (k, j))"
  by pat_completeness auto
termination
  by (relation "measure (\<lambda>(s, i, k, j). length (mt_trajectories s) - k)") auto

definition frameIndexToLocation :: "'c multitraj \<Rightarrow> nat \<Rightarrow> nat \<times> nat" where
  "frameIndexToLocation s i =
     (let (k, j) = frameIndexToLocation_loop s i 0 0
      in (k, uadd (mt_skip s) (umul (usub i j) (mt_stride s))))"

definition seekNextFrameImpl :: "'c multitraj \<Rightarrow> 'c multitraj" where
  "seekNextFrameImpl s =
     (if eof s then s
      else let s1 = s\<lparr>mt_curframe := uadd (mt_curframe s) (mt_stride s)\<rparr>
           in if mt_curframe s1 \<ge> traj_nframes (mt_trajectories s1 ! mt_curtraj s1)
              then findNextUsableTraj
                     (s1\<lparr>mt_curframe := mt_skip s1, mt_curtraj := mt_curtraj s1 + 1\<rparr>)
              else s1)"

definition seekFrameImpl :: "'c multitraj \<Rightarrow> nat \<Rightarrow> error + 'c multitraj" where
  "seekFrameImpl s i =
     (if i \<ge> mt_nframes s then Inl (FileReadError ''Cannot seek past end of MultiTraj'')
      else let idx = frameIndexToLocation s i
           in Inr (s\<lparr>mt_curtraj := fst idx, mt_curframe := snd idx\<rparr>))"

definition parseFrame :: "'c multitraj \<Rightarrow> bool \<times> 'c multitraj" where
  "parseFrame s =
     (if eof s then (False, s)
      else let (ok, t) = traj_readFrame (mt_curframe s) (mt_trajectories s ! mt_curtraj s)
           in (ok, s\<lparr>mt_trajectories := (mt_trajectories s)[mt_curtraj s := t]\<rparr>))"

definition updateGroupCoordsImpl :: "'c multitraj \<Rightarrow> 'c \<Rightarrow> 'c" where
  "updateGroupCoordsImpl s g =
     (if \<not> eof s then traj_updateGroupCoords (mt_trajectories s ! mt_curtraj s) g else g)"

text \<open>
  \<open>initWithList\<close>: the loop over \<open>i\<close>. The call of \<open>createTrajectory\<close> opens a file;
  its results are given as the list of opened sources.
\<close>

fun initWithList_loop :: "'c trajectory list \<Rightarrow> nat \<Rightarrow> 'c multitraj \<Rightarrow> 'c multitraj" where
  "initWithList_loop [] i s = s"
| "initWithList_loop (traj # rest) i s =
     (let s1 = s\<lparr>mt_trajectories := mt_trajectories s @ [traj]\<rparr>;
          s2 = s1\<lparr>mt_nframes := uadd (mt_nframes s1) (nframes s1 i)\<rparr>
      in initWithList_loop rest (i + 1) s2)"

definition initWithList :: "'c trajectory list \<Rightarrow> 'c multitraj \<Rightarrow> 'c multitraj" where
  "initWithList trajs s = initWithList_loop trajs 0 s"

definition MultiTrajectory :: "'c trajectory list \<Rightarrow> nat \<Rightarrow> nat \<Rightarrow> 'c multitraj" where
  \<comment> \<open>Modelled from the spec: the constructor is in \<open>MultiTraj.hpp\<close>. Section 4.3: given the
      sources, \<open>skip\<close> and \<open>stride\<close>, it opens each source and sums the usable counts,
      which is what \<open>initWithList\<close> does from an empty list and a zero total.\<close>
  "MultiTrajectory trajs sk st =
     initWithList trajs
       \<lparr>mt_trajectories = [], mt_nframes = 0, mt_skip = sk, mt_stride = st,
        mt_curtraj = 0, mt_curframe = 0\<rparr>"

section \<open>The trajectory writer (\<open>dcdwriter.hpp\<close>)\<close>

text \<open>
  \<open>dcdwriter.hpp\<close> declares the writer's members and defines its inline ones
  (\<open>setHeader\<close>, the title setters, \<open>framesWritten\<close>). The bodies of
  \<open>writeHeader\<close> and \<open>writeFrame\<close> are not at hand and are modelled from sections
  4.2 and 6 of the spec, where the writer pushes its bytes through the word codec.
  A coordinate, a box edge and the timestep are one-word values, each given by its
  four bytes. An \<open>AtomicGroup\<close> is what section 6 of the spec says the writer sees of
  it: the coordinate triples of its atoms and its periodic box, if it has one.
\<close>

type_synonym scalar = "byte list"

record atomic_group =
  ag_coords :: "(scalar \<times> scalar \<times> scalar) list"
  ag_box :: "(scalar \<times> scalar \<times> scalar) option"

record dcdwriter =
  dw_natoms :: int
  dw_nsteps :: int
  dw_timestep :: scalar
  dw_current :: int
  dw_has_box :: bool
  dw_ofs :: xdr
  dw_titles :: "string list"

definition DCDWriter :: "endian \<Rightarrow> scalar \<Rightarrow> iostream \<Rightarrow> dcdwriter" where
  \<comment> \<open>the constructor \<open>DCDWriter(std::iostream& fs)\<close>. \<open>ts\<close> stands for the bytes of
      the default timestep \<open>0.001\<close>; the stream is wrapped by a codec made on this host.\<close>
  "DCDWriter host ts fs =
     \<lparr>dw_natoms = 0, dw_nsteps = 0, dw_timestep = ts, dw_current = 0, dw_has_box = False,
      dw_ofs = XDR host fs, dw_titles = [''AUTO GENERATED BY LOOS'']\<rparr>"

definition setHeader :: "int \<Rightarrow> int \<Rightarrow> scalar \<Rightarrow> bool \<Rightarrow> dcdwriter \<Rightarrow> dcdwriter" where
  "setHeader na ns ts bf w =
     w\<lparr>dw_natoms := na, dw_nsteps := ns, dw_timestep := ts, dw_has_box := bf\<rparr>"

definition setTitles :: "string list \<Rightarrow> dcdwriter \<Rightarrow> dcdwriter" where
  "setTitles titles w = w\<lparr>dw_titles := titles\<rparr>"

definition addTitle :: "string \<Rightarrow> dcdwriter \<Rightarrow> dcdwriter" where
  "addTitle s w = w\<lparr>dw_titles := dw_titles w @ [s]\<rparr>"

definition setTitle :: "string \<Rightarrow> dcdwriter \<Rightarrow> dcdwriter" where
  "setTitle s w = addTitle s (w\<lparr>dw_titles := []\<rparr>)"

definition framesWritten :: "dcdwriter \<Rightarrow> int" where
  "framesWritten w = dw_current w"

definition int_scalar :: "endian \<Rightarrow> int \<Rightarrow> scalar" where
  \<comment> \<open>Modelled from the spec: a header count is a C \<open>int\<close>, handed to the codec as
      the host stores it.\<close>
  "int_scalar host n = int_bytes host (word_of_int n)"

definition title_bytes :: "string \<Rightarrow> byte list" where
  \<comment> \<open>Modelled from the spec: a title record is the characters of the title.\<close>
  "title_bytes t = map (\<lambda>c. of_nat (of_char c)) t"

definition put_scalar :: "scalar \<Rightarrow> xdr \<Rightarrow> xdr" where
  \<comment> \<open>Modelled from the spec: one scalar through \<open>XDR::write\<close>; the writer's
      operations return nothing, so the result is dropped and a failure stays in the
      stream.\<close>
  "put_scalar v x =
     (case xdr_write v (replicate sizeof_uint 0) x of Inl e \<Rightarrow> x | Inr (r, x') \<Rightarrow> x')"

definition put_block :: "byte list \<Rightarrow> xdr \<Rightarrow> xdr" where
  \<comment> \<open>Modelled from the spec: one block through \<open>XDR::write(char*, uint)\<close>, the
      result dropped likewise.\<close>
  "put_block bs x = snd (xdr_write_block bs (length bs) x)"

definition nsteps_offset :: nat where
  \<comment> \<open>Modelled from the spec: section 6 lays the header out as atom count, step count,
      timestep, box flag, titles, each field of word size; the step count starts one word
      into the file.\<close>
  "nsteps_offset = sizeof_uint"

definition writeHeader :: "endian \<Rightarrow> dcdwriter \<Rightarrow> dcdwriter" where
  \<comment> \<open>Modelled from the spec: sections 4.2 and 6. The header record: atom count, step
      count, timestep and box flag as words, then the title records as padded blocks.\<close>
  "writeHeader host w =
     (let x1 = put_scalar (int_scalar host (dw_natoms w)) (dw_ofs w);
          x2 = put_scalar (int_scalar host (dw_nsteps w)) x1;
          x3 = put_scalar (dw_timestep w) x2;
          x4 = put_scalar (int_scalar host (if dw_has_box w then 1 else 0)) x3;
          x5 = fold (\<lambda>t x. put_block (title_bytes t) x) (dw_titles w) x4
      in w\<lparr>dw_ofs := x5\<rparr>)"

definition patchHeader :: "endian \<Rightarrow> dcdwriter \<Rightarrow> dcdwriter" where
  \<comment> \<open>Modelled from the spec: section 4.2, self-extension. The step count field of the
      header already emitted is rewritten in place: the write position is taken, the stream
      is positioned on the field, the field is written, and the position is put back.\<close>
  "patchHeader host w =
     (let x = dw_ofs w;
          pos = tellp (stream x);
          x1 = x\<lparr>stream := seekp nsteps_offset (stream x)\<rparr>;
          x2 = put_scalar (int_scalar host (dw_nsteps w)) x1;
          x3 = x2\<lparr>stream := seekp pos (stream x2)\<rparr>
      in w\<lparr>dw_ofs := x3\<rparr>)"

definition axis_block :: "(scalar \<times> scalar \<times> scalar \<Rightarrow> scalar) \<Rightarrow> atomic_group \<Rightarrow> byte list" where
  \<comment> \<open>Modelled from the spec: the coordinate block of one axis, atom after atom.\<close>
  "axis_block sel g = concat (map sel (ag_coords g))"

definition put_frame :: "bool \<Rightarrow> atomic_group \<Rightarrow> xdr \<Rightarrow> xdr" where
  \<comment> \<open>Modelled from the spec: section 4.2, the frame record: one coordinate block per
      axis, then the box descriptor block if the header has a box.\<close>
  "put_frame has_box g ofs =
     (let x1 = put_block (axis_block (\<lambda>(x, y, z). x) g) ofs;
          x2 = put_block (axis_block (\<lambda>(x, y, z). y) g) x1;
          x3 = put_block (axis_block (\<lambda>(x, y, z). z) g) x2
      in if has_box
         then (case ag_box g of None \<Rightarrow> x3 | Some (a, b, c) \<Rightarrow> put_block (a @ b @ c) x3)
         else x3)"

definition writeFrame :: "endian \<Rightarrow> dcdwriter \<Rightarrow> atomic_group \<Rightarrow> error + dcdwriter" where
  \<comment> \<open>Modelled from the spec: section 4.2. With no atom count declared yet (implicit
      mode) the atom count and the box flag are taken from the frame and the header is
      written first. The frame is validated against the header; the coordinate blocks
      are emitted, then the box block if the header has a box; the frame counter is
      incremented; and if it now exceeds the step count, the step count follows it and
      the header field is patched.\<close>
  "writeFrame host w g =
     (let w1 = (if dw_natoms w = 0
                then writeHeader host
                       (setHeader (int (length (ag_coords g))) (dw_nsteps w) (dw_timestep w)
                          (ag_box g \<noteq> None) w)
                else w)
      in if int (length (ag_coords g)) \<noteq> dw_natoms w1
         then Inl (LogicError ''Frame has wrong number of atoms'')
         else if dw_has_box w1 \<noteq> (ag_box g \<noteq> None)
         then Inl (LogicError ''Frame has wrong periodic box information'')
         else let x4 = put_frame (dw_has_box w1) g (dw_ofs w1);
                  w2 = w1\<lparr>dw_ofs := x4, dw_current := dw_current w1 + 1\<rparr>
              in Inr (if dw_current w2 > dw_nsteps w2
                      then patchHeader host (w2\<lparr>dw_nsteps := dw_current w2\<rparr>)
                      else w2))"

fun writeFrames :: "endian \<Rightarrow> dcdwriter \<Rightarrow> atomic_group list \<Rightarrow> error + dcdwriter" where
  \<comment> \<open>Modelled from the spec: section 4.2, the batch overload: the frames in the given
      order, as repeated single-frame writes.\<close>
  "writeFrames host w [] = Inr w"
| "writeFrames host w (g # gs) =
     (case writeFrame host w g of Inl e \<Rightarrow> Inl e | Inr w' \<Rightarrow> writeFrames host w' gs)"

section \<open>Notions used in the statements\<close>

definition spec_padding :: "nat \<Rightarrow> nat" where
  \<comment> \<open>the padding length in the words of section 8 of the spec:
      \<open>(wordSize - n % wordSize) % wordSize\<close>\<close>
  "spec_padding n = (sizeof_uint - n mod sizeof_uint) mod sizeof_uint"

definition native :: "'c multitraj \<Rightarrow> nat \<Rightarrow> nat" where
  \<comment> \<open>the native frame count of source \<open>k\<close>\<close>
  "native s k = traj_nframes (mt_trajectories s ! k)"

definition natives :: "'c multitraj \<Rightarrow> nat list" where
  "natives s = map traj_nframes (mt_trajectories s)"

definition cursor :: "'c multitraj \<Rightarrow> nat \<times> nat" where
  \<comment> \<open>the cursor: current source and native offset in it\<close>
  "cursor s = (mt_curtraj s, mt_curframe s)"

definition usable_or_end :: "'c multitraj \<Rightarrow> bool" where
  \<comment> \<open>the stream is at end, or its current source has more than \<open>_skip\<close> frames\<close>
  "usable_or_end s = (eof s \<or> traj_nframes (mt_trajectories s ! mt_curtraj s) > mt_skip s)"

definition base :: "'c multitraj \<Rightarrow> nat \<Rightarrow> nat" where
  \<comment> \<open>the number of virtual frames in the sources before source \<open>c\<close>\<close>
  "base s c = sum_list (map (nframes s) [0..<c])"

definition same_sources :: "'c multitraj \<Rightarrow> 'c multitraj \<Rightarrow> bool" where
  "same_sources s t =
     (natives t = natives s \<and> mt_skip t = mt_skip s \<and> mt_stride t = mt_stride s)"

definition in_range :: "'c multitraj \<Rightarrow> bool" where
  \<comment> \<open>no \<open>uint\<close> operation of the stream wraps around\<close>
  "in_range s = (1 \<le> mt_stride s
     \<and> (\<forall>n \<in> set (natives s). n + mt_stride s \<le> uint_max)
     \<and> base s (length (mt_trajectories s)) < uint_max)"

definition at_index :: "'c multitraj \<Rightarrow> nat \<Rightarrow> bool" where
  \<comment> \<open>the cursor of \<open>t\<close> is where virtual frame \<open>i\<close> lives\<close>
  "at_index t i = (mt_curtraj t < length (mt_trajectories t)
     \<and> base t (mt_curtraj t) \<le> i \<and> i < base t (mt_curtraj t) + nframes t (mt_curtraj t)
     \<and> mt_curframe t = mt_skip t + (i - base t (mt_curtraj t)) * mt_stride t)"

subsection \<open>Example streams\<close>

definition ex_out :: iostream where
  \<comment> \<open>an empty device with room for two words\<close>
  "ex_out = \<lparr>content = [], gpos = 0, ppos = 0, failed = False, cap = 8\<rparr>"

definition ex_in :: iostream where
  \<comment> \<open>five bytes to read\<close>
  "ex_in = \<lparr>content = [1, 2, 3, 4, 5], gpos = 0, ppos = 5, failed = False, cap = 8\<rparr>"

definition traj_of :: "'c list \<Rightarrow> 'c trajectory" where
  \<comment> \<open>a freshly opened source with the given frames\<close>
  "traj_of fs = \<lparr>frames = fs, tpos = 0, loaded = None\<rparr>"

definition ex_mt :: "nat multitraj" where
  \<comment> \<open>the example of section 8 of the spec: native frame counts 10, 5 and 20\<close>
  "ex_mt = MultiTrajectory [traj_of [0..<10], traj_of [0..<5], traj_of [0..<20]] 2 3"

definition ex_end :: "nat multitraj" where
  "ex_end = ex_mt\<lparr>mt_curtraj := 3\<rparr>"

definition ex_gap :: "nat multitraj" where
  \<comment> \<open>sources 0 and 2 have no more than \<open>skip\<close> frames\<close>
  "ex_gap = MultiTrajectory
     [traj_of [0..<1], traj_of [10..<20], traj_of [0..<2], traj_of [30..<35]] 2 3"

definition ex_gap_at :: "nat multitraj" where
  \<comment> \<open>\<open>ex_gap\<close> on the last sampled frame of source 1\<close>
  "ex_gap_at = ex_gap\<lparr>mt_curtraj := 1, mt_curframe := 8\<rparr>"

definition ex_wrap :: "nat multitraj" where
  \<comment> \<open>a stride of \<open>UINT_MAX\<close>\<close>
  "ex_wrap = MultiTrajectory [traj_of [0..<10], traj_of [0..<10]] 2 4294967295"

definition be32 :: "int \<Rightarrow> byte list" where
  \<comment> \<open>the word a count has on disk: four bytes, most significant first\<close>
  "be32 n = rev (le_bytes (word_of_int n))"

definition header_nsteps :: "iostream \<Rightarrow> byte list" where
  \<comment> \<open>the step count field of the header at the start of the stream\<close>
  "header_nsteps s = take sizeof_uint (drop nsteps_offset (content s))"

definition at_end :: "iostream \<Rightarrow> bool" where
  \<comment> \<open>a healthy stream whose write position is the end of what it holds\<close>
  "at_end s = (\<not> failed s \<and> ppos s = length (content s) \<and> length (content s) \<le> cap s)"

definition grows :: "xdr \<Rightarrow> xdr \<Rightarrow> bool" where
  \<comment> \<open>\<open>x'\<close> is \<open>x\<close> with bytes appended\<close>
  "grows x x' = (need_to_swab x' = need_to_swab x \<and> at_end (stream x')
     \<and> take (length (content (stream x))) (content (stream x')) = content (stream x)
     \<and> length (content (stream x)) \<le> length (content (stream x')))"

definition writer_ok :: "endian \<Rightarrow> dcdwriter \<Rightarrow> bool" where
  \<comment> \<open>a writer whose header has been emitted at the start of a healthy stream, on a codec
      built on this host, and which is positioned at the end\<close>
  "writer_ok host w =
     (need_to_swab (dw_ofs w) = need_to_swab (XDR host (stream (dw_ofs w)))
      \<and> at_end (stream (dw_ofs w))
      \<and> nsteps_offset + sizeof_uint \<le> length (content (stream (dw_ofs w)))
      \<and> header_nsteps (stream (dw_ofs w)) = be32 (dw_nsteps w)
      \<and> dw_natoms w \<noteq> 0
      \<and> dw_current w \<le> dw_nsteps w)"

definition writer_fresh :: "endian \<Rightarrow> dcdwriter \<Rightarrow> bool" where
  \<comment> \<open>a writer as constructed on an empty healthy stream, before any header or frame:
      nothing written, no atom count declared\<close>
  "writer_fresh host w =
     (need_to_swab (dw_ofs w) = need_to_swab (XDR host (stream (dw_ofs w)))
      \<and> at_end (stream (dw_ofs w))
      \<and> content (stream (dw_ofs w)) = []
      \<and> length (dw_timestep w) = sizeof_uint
      \<and> dw_natoms w = 0
      \<and> dw_current w = 0
      \<and> 0 \<le> dw_nsteps w)"

definition ex_dcd_stream :: iostream where
  "ex_dcd_stream = \<lparr>content = [], gpos = 0, ppos = 0, failed = False, cap = 1000\<rparr>"

definition ex_timestep :: scalar where
  "ex_timestep = [0x6F, 0x12, 0x83, 0x3A]"

definition ex_implicit :: dcdwriter where
  \<comment> \<open>a writer as constructed: no header yet\<close>
  "ex_implicit = DCDWriter Little ex_timestep ex_dcd_stream"

definition ex_explicit :: dcdwriter where
  \<comment> \<open>explicit mode: one atom, one step declared, no box, header written\<close>
  "ex_explicit = writeHeader Little (setHeader 1 1 ex_timestep False ex_implicit)"

definition ex_frame :: atomic_group where
  "ex_frame = \<lparr>ag_coords = [([1, 1, 1, 1], [2, 2, 2, 2], [3, 3, 3, 3])], ag_box = None\<rparr>"

definition ex_after_two :: dcdwriter where
  \<comment> \<open>\<open>ex_explicit\<close> after two frames: the file holds the patched header and both frames\<close>
  "ex_after_two =
     \<lparr>dw_natoms = 1, dw_nsteps = 2, dw_timestep = ex_timestep, dw_current = 2, dw_has_box = False,
      dw_ofs = \<lparr>stream = \<lparr>content =
           [0, 0, 0, 1,  0, 0, 0, 2,  0x3A, 0x83, 0x12, 0x6F,  0, 0, 0, 0,
            0x41, 0x55, 0x54, 0x4F, 0x20, 0x47, 0x45, 0x4E, 0x45, 0x52, 0x41, 0x54, 0x45, 0x44,
            0x20, 0x42, 0x59, 0x20, 0x4C, 0x4F, 0x4F, 0x53, 0, 0,
            1, 1, 1, 1,  2, 2, 2, 2,  3, 3, 3, 3,
            1, 1, 1, 1,  2, 2, 2, 2,  3, 3, 3, 3],
           gpos = 0, ppos = 64, failed = False, cap = 1000\<rparr>, need_to_swab = True\<rparr>,
      dw_titles = [''AUTO GENERATED BY LOOS'']\<rparr>"

definition ex_after_first :: dcdwriter where
  \<comment> \<open>\<open>ex_implicit\<close> after its first frame: header inferred from the frame, one step\<close>
  "ex_after_first =
     \<lparr>dw_natoms = 1, dw_nsteps = 1, dw_timestep = ex_timestep, dw_current = 1, dw_has_box = False,
      dw_ofs = \<lparr>stream = \<lparr>content =
           [0, 0, 0, 1,  0, 0, 0, 1,  0x3A, 0x83, 0x12, 0x6F,  0, 0, 0, 0,
            0x41, 0x55, 0x54, 0x4F, 0x20, 0x47, 0x45, 0x4E, 0x45, 0x52, 0x41, 0x54, 0x45, 0x44,
            0x20, 0x42, 0x59, 0x20, 0x4C, 0x4F, 0x4F, 0x53, 0, 0,
            1, 1, 1, 1,  2, 2, 2, 2,  3, 3, 3, 3],
           gpos = 0, ppos = 52, failed = False, cap = 1000\<rparr>, need_to_swab = True\<rparr>,
      dw_titles = [''AUTO GENERATED BY LOOS'']\<rparr>"

section \<open>The stream and the codec: basic facts\<close>

lemma stream_write_Nil: "stream_write [] s = s"
  by (simp add: stream_write_def)

lemma stream_read_ok:
  "\<not> failed s \<Longrightarrow> gpos s + n \<le> length (content s) \<Longrightarrow>
   stream_read n s = (take n (drop (gpos s) (content s)), s\<lparr>gpos := gpos s + n, failed := False\<rparr>)"
  by (simp add: stream_read_def Let_def)

lemma stream_write_ok:
  "\<not> failed s \<Longrightarrow> ppos s + length bs \<le> cap s \<Longrightarrow>
   stream_write bs s = s\<lparr>content := take (ppos s) (content s) @ bs @ drop (ppos s + length bs) (content s),
       ppos := ppos s + length bs, failed := False\<rparr>"
  by (simp add: stream_write_def Let_def)

lemma xdr_read_Inr:
  "sz \<le> sizeof_uint \<Longrightarrow>
   xdr_read sz data0 x =
     Inr (of_bool (\<not> failed (snd (stream_read sizeof_uint (stream x)))),
          (let r = take sz (store (fst (stream_read sizeof_uint (stream x))) data0)
           in if sz > 1 \<and> need_to_swab x then swab r else r),
          x\<lparr>stream := snd (stream_read sizeof_uint (stream x))\<rparr>)"
  by (simp add: xdr_read_def Let_def split: prod.splits)

lemma xdr_write_Inr:
  "length v \<le> sizeof_uint \<Longrightarrow>
   xdr_write v u0 x =
     (let u = (if length v > 1 \<and> need_to_swab x then swab (store v u0) else store v u0);
          s' = stream_write u (stream x)
      in Inr (of_bool (\<not> failed s'), x\<lparr>stream := s'\<rparr>))"
  by (simp add: xdr_write_def Let_def)

lemma length_store: "length src \<le> length dst \<Longrightarrow> length (store src dst) = length dst"
  by (simp add: store_def)

lemma padding_as_spec: "(let r = n mod sizeof_uint in if r > 0 then sizeof_uint - r else r) = spec_padding n"
  by (simp add: spec_padding_def sizeof_uint_def Let_def)

lemma padding_whole_words: "(n + spec_padding n) mod sizeof_uint = 0"
proof -
  have "n mod 4 = 0 \<or> n mod 4 = 1 \<or> n mod 4 = 2 \<or> n mod 4 = 3" by linarith
  moreover have "(n + k) mod 4 = (n mod 4 + k) mod 4" for k by (simp add: mod_add_left_eq)
  ultimately have "(n + (4 - n mod 4) mod 4) mod 4 = (0::nat)" by auto
  then show ?thesis by (simp add: spec_padding_def sizeof_uint_def)
qed

lemma spec_padding_less: "spec_padding n < sizeof_uint"
  by (simp add: spec_padding_def sizeof_uint_def)

lemma read_after_write:
  assumes "\<not> failed s" "gpos s = ppos s" "ppos s \<le> length (content s)" "ppos s + length bs \<le> cap s"
  shows "stream_read (length bs) (stream_write bs s) =
          (bs, (stream_write bs s)\<lparr>gpos := gpos s + length bs\<rparr>)"
  using assms by (simp add: stream_write_ok stream_read_def Let_def)

lemma xdr_write_block_eq:
  "xdr_write_block p n x =
     (let s1 = stream_write (take n p) (stream x);
          s2 = (if \<not> failed s1 then stream_write (replicate (spec_padding n) 0) s1 else s1)
      in ((if failed s2 then 0 else n), x\<lparr>stream := s2\<rparr>))"
proof -
  have "take (spec_padding n) (replicate sizeof_uint (0::byte)) = replicate (spec_padding n) 0"
    using spec_padding_less[of n] by simp
  then show ?thesis
    unfolding xdr_write_block_def Let_def padding_as_spec[unfolded Let_def] by simp
qed

lemma xdr_read_block_eq:
  "xdr_read_block p n x =
     (if n = 0 then (1, p, x)
      else let (got, s1) = stream_read n (stream x);
               p' = store got p
           in if failed s1 then (0, p', x\<lparr>stream := s1\<rparr>)
              else let s2 = (if spec_padding n \<noteq> 0 then snd (stream_read (spec_padding n) s1) else s1)
                   in (n, p', x\<lparr>stream := s2\<rparr>))"
  unfolding xdr_read_block_def Let_def padding_as_spec[unfolded Let_def] by simp


subsection \<open>Round trips that hold\<close>

text \<open>
  A scalar survives \<open>write\<close> followed by \<open>read\<close> when it fills the word, when it is
  a single byte, or when the host needs no byte swap.
\<close>

lemma xdr_scalar_roundtrip:
  assumes "length v = sizeof_uint \<or> length v = 1 \<or> (length v \<le> sizeof_uint \<and> \<not> need_to_swab x)"
      and "length u0 = sizeof_uint"
      and "\<not> failed (stream x)" "gpos (stream x) = ppos (stream x)"
          "ppos (stream x) \<le> length (content (stream x))"
          "ppos (stream x) + sizeof_uint \<le> cap (stream x)"
  shows "\<exists>x1 x2. xdr_write v u0 x = Inr (1, x1) \<and> xdr_read (length v) data0 x1 = Inr (1, v, x2)"
proof -
  define u where "u = (if length v > 1 \<and> need_to_swab x then swab (store v u0) else store v u0)"
  have lv: "length v \<le> sizeof_uint" using assms(1) by (auto simp: sizeof_uint_def)
  have lu: "length u = sizeof_uint"
    using lv assms(2) by (simp add: u_def swab_def length_store)
  define s1 where "s1 = stream_write u (stream x)"
  have f1: "\<not> failed s1"
    using assms lu by (simp add: s1_def stream_write_ok)
  have w: "xdr_write v u0 x = Inr (1, x\<lparr>stream := s1\<rparr>)"
    using lv f1 by (simp add: xdr_write_Inr u_def s1_def Let_def)
  have rd: "stream_read sizeof_uint s1 = (u, s1\<lparr>gpos := gpos (stream x) + sizeof_uint\<rparr>)"
    using read_after_write[of "stream x" u] assms lu by (simp add: s1_def)
  have res: "(let r = take (length v) (store u data0)
              in if length v > 1 \<and> need_to_swab x then swab r else r) = v"
  proof (cases "length v > 1 \<and> need_to_swab x")
    case True
    with assms(1) have l4: "length v = sizeof_uint" by auto
    with assms(2) have "u = rev v" using True by (simp add: u_def store_def swab_def)
    with l4 True show ?thesis by (simp add: store_def swab_def Let_def)
  next
    case False
    then have "u = v @ drop (length v) u0" by (auto simp add: u_def store_def)
    with False show ?thesis by (auto simp add: store_def Let_def)
  qed
  have "xdr_read (length v) data0 (x\<lparr>stream := s1\<rparr>) =
          Inr (1, v, x\<lparr>stream := s1\<lparr>gpos := gpos (stream x) + sizeof_uint\<rparr>\<rparr>)"
    using lv f1 res by (simp add: xdr_read_Inr rd)
  with w show ?thesis by blast
qed


text \<open>
  A block of any length survives \<open>write\<close> followed by \<open>read\<close>; the bytes between
  payload and next word are \<open>spec_padding n\<close> zeros, which the read skips.
\<close>

lemma xdr_block_roundtrip:
  assumes "n \<le> length p"
      and "\<not> failed (stream x)" "gpos (stream x) = ppos (stream x)"
          "ppos (stream x) \<le> length (content (stream x))"
          "ppos (stream x) + n + spec_padding n \<le> cap (stream x)"
  shows "\<exists>x1 x2. xdr_write_block p n x = (n, x1)
           \<and> xdr_read_block q n x1 = ((if n = 0 then 1 else n), store (take n p) q, x2)
           \<and> content (stream x1) = take (ppos (stream x)) (content (stream x)) @ take n p
                @ replicate (spec_padding n) 0 @ drop (ppos (stream x) + n + spec_padding n) (content (stream x))
           \<and> ppos (stream x1) = ppos (stream x) + n + spec_padding n
           \<and> gpos (stream x2) = gpos (stream x) + n + spec_padding n
           \<and> \<not> failed (stream x2)
           \<and> (n + spec_padding n) mod sizeof_uint = 0"
proof -
  define s where "s = stream x"
  define s1 where "s1 = stream_write (take n p) s"
  define s2 where "s2 = stream_write (replicate (spec_padding n) 0) s1"
  have ln: "length (take n p) = n" using assms(1) by simp
  have s1: "s1 = s\<lparr>content := take (ppos s) (content s) @ take n p @ drop (ppos s + n) (content s),
       ppos := ppos s + n, failed := False\<rparr>"
    using assms ln unfolding s1_def by (simp add: stream_write_ok s_def)
  have s2: "s2 = s1\<lparr>content := take (ppos s1) (content s1) @ replicate (spec_padding n) 0
                     @ drop (ppos s1 + spec_padding n) (content s1),
       ppos := ppos s1 + spec_padding n, failed := False\<rparr>"
    using assms unfolding s2_def by (simp add: stream_write_ok s1 s_def)
  have c2: "content s2 = take (ppos s) (content s) @ take n p
                @ replicate (spec_padding n) 0 @ drop (ppos s + n + spec_padding n) (content s)"
    using assms ln by (simp add: s2 s1 s_def add.commute)
  have w: "xdr_write_block p n x = (n, x\<lparr>stream := s2\<rparr>)"
    by (simp add: xdr_write_block_eq Let_def s_def[symmetric] s1_def[symmetric] s2_def[symmetric])
       (simp add: s1 s2)
  have g2: "gpos s2 = ppos s" "\<not> failed s2" "ppos s2 = ppos s + n + spec_padding n"
    using assms by (simp_all add: s2 s1 s_def)
  have lc: "length (content s2) \<ge> ppos s + n + spec_padding n"
    using assms ln by (simp add: c2 s_def)
  have r1: "stream_read n s2 = (take n p, s2\<lparr>gpos := ppos s + n, failed := False\<rparr>)"
    using g2 lc assms ln by (simp add: stream_read_ok) (simp add: c2 s_def)
  have r2: "snd (stream_read (spec_padding n) (s2\<lparr>gpos := ppos s + n, failed := False\<rparr>))
             = s2\<lparr>gpos := ppos s + n + spec_padding n, failed := False\<rparr>"
    using lc by (simp add: stream_read_ok)
  have rd: "xdr_read_block q n (x\<lparr>stream := s2\<rparr>) =
      ((if n = 0 then 1 else n), store (take n p) q,
        x\<lparr>stream := (if n = 0 then s2 else s2\<lparr>gpos := ppos s + n + spec_padding n, failed := False\<rparr>)\<rparr>)"
    using ln by (auto simp add: xdr_read_block_eq r1 r2 Let_def store_def)
  show ?thesis
    apply (rule exI[of _ "x\<lparr>stream := s2\<rparr>"])
    apply (rule exI[of _ "x\<lparr>stream := (if n = 0 then s2 else s2\<lparr>gpos := ppos s + n + spec_padding n, failed := False\<rparr>)\<rparr>"])
    using w rd c2 g2 assms(3) padding_whole_words[of n]
    by (auto simp add: s_def spec_padding_def sizeof_uint_def)
qed


section \<open>Claims about the codec\<close>

text \<open>
  C2. Decoding the codec's encoding returns the original for every scalar of a type no
  larger than one word. The code does not do so for a two-byte scalar on a host that
  swaps: \<open>write\<close> reverses the whole word \<open>u\<close>, which moves the value to the last two
  bytes on the stream, and \<open>read\<close> narrows to the first two bytes before it reverses.
  Written on a little-endian host, the two-byte value \<open>02 01\<close> is read back as
  \<open>CC DD\<close>, the bytes the unused half of \<open>u\<close> happened to hold.
\<close>

theorem xdr_two_byte_scalar_not_restored:
  "xdr_write [0x02, 0x01] [0xAA, 0xBB, 0xCC, 0xDD] (XDR Little ex_out)
     = Inr (1, XDR Little (ex_out\<lparr>content := [0xDD, 0xCC, 0x01, 0x02], ppos := 4\<rparr>))
   \<and> xdr_read 2 [0, 0, 0, 0]
         (XDR Little (ex_out\<lparr>content := [0xDD, 0xCC, 0x01, 0x02], ppos := 4\<rparr>))
     = Inr (1, [0xCC, 0xDD],
            XDR Little (ex_out\<lparr>content := [0xDD, 0xCC, 0x01, 0x02], ppos := 4, gpos := 4\<rparr>))"
  by (simp add: xdr_write_def xdr_read_def XDR_def ex_out_def int_bytes_def le_bytes_def
        store_def swab_def sizeof_uint_def stream_write_def stream_read_def Let_def)

text \<open>
  C8. A scalar read or write fails with the "too large" logic error exactly when
  \<open>sizeof(T)\<close> exceeds one word, whatever the state of the stream. Otherwise it does
  not throw, it issues one transfer of exactly one word on the stream, and it returns
  1 or 0 as the stream is healthy or failed after that transfer. On a healthy stream
  that has the word to give, or the room to take it, the position moves by one word and
  the result is 1.
\<close>

theorem xdr_scalar_size_check:
  "(xdr_read sz data0 x = Inl (LogicError ''Attempting to read a POD that is too large''))
      = (sizeof_uint < sz)
   \<and> (xdr_write v u0 x = Inl (LogicError ''Attempting to write a POD that is too large''))
      = (sizeof_uint < length v)
   \<and> (sz \<le> sizeof_uint \<longrightarrow>
        (\<exists>ret r x'. xdr_read sz data0 x = Inr (ret, r, x')
            \<and> stream x' = snd (stream_read sizeof_uint (stream x))
            \<and> ret = (if failed (stream x') then 0 else 1)))
   \<and> (length v \<le> sizeof_uint \<and> length u0 = sizeof_uint \<longrightarrow>
        (\<exists>ret u x'. xdr_write v u0 x = Inr (ret, x')
            \<and> length u = sizeof_uint \<and> stream x' = stream_write u (stream x)
            \<and> ret = (if failed (stream x') then 0 else 1)))
   \<and> (sz \<le> sizeof_uint \<and> \<not> failed (stream x)
        \<and> gpos (stream x) + sizeof_uint \<le> length (content (stream x)) \<longrightarrow>
        (\<exists>r x'. xdr_read sz data0 x = Inr (1, r, x') \<and> \<not> failed (stream x')
            \<and> gpos (stream x') = gpos (stream x) + sizeof_uint))
   \<and> (length v \<le> sizeof_uint \<and> length u0 = sizeof_uint \<and> \<not> failed (stream x)
        \<and> ppos (stream x) + sizeof_uint \<le> cap (stream x) \<longrightarrow>
        (\<exists>x'. xdr_write v u0 x = Inr (1, x') \<and> \<not> failed (stream x')
            \<and> ppos (stream x') = ppos (stream x) + sizeof_uint))"
proof (intro conjI impI)
  show "(xdr_read sz data0 x = Inl (LogicError ''Attempting to read a POD that is too large''))
          = (sizeof_uint < sz)"
    by (simp add: xdr_read_def Let_def split: prod.splits)
  show "(xdr_write v u0 x = Inl (LogicError ''Attempting to write a POD that is too large''))
          = (sizeof_uint < length v)"
    by (simp add: xdr_write_def Let_def)
next
  assume "sz \<le> sizeof_uint"
  then show "\<exists>ret r x'. xdr_read sz data0 x = Inr (ret, r, x')
            \<and> stream x' = snd (stream_read sizeof_uint (stream x))
            \<and> ret = (if failed (stream x') then 0 else 1)"
    by (simp add: xdr_read_Inr)
next
  assume a: "length v \<le> sizeof_uint \<and> length u0 = sizeof_uint"
  define u where "u = (if length v > 1 \<and> need_to_swab x then swab (store v u0) else store v u0)"
  have "length u = sizeof_uint"
    using a by (simp add: u_def swab_def length_store)
  moreover have "xdr_write v u0 x =
      Inr (of_bool (\<not> failed (stream_write u (stream x))), x\<lparr>stream := stream_write u (stream x)\<rparr>)"
    using a by (simp add: xdr_write_Inr u_def Let_def)
  ultimately show "\<exists>ret u x'. xdr_write v u0 x = Inr (ret, x')
            \<and> length u = sizeof_uint \<and> stream x' = stream_write u (stream x)
            \<and> ret = (if failed (stream x') then 0 else 1)"
    by auto
next
  assume a: "sz \<le> sizeof_uint \<and> \<not> failed (stream x)
        \<and> gpos (stream x) + sizeof_uint \<le> length (content (stream x))"
  then have "stream_read sizeof_uint (stream x) =
        (take sizeof_uint (drop (gpos (stream x)) (content (stream x))),
         (stream x)\<lparr>gpos := gpos (stream x) + sizeof_uint, failed := False\<rparr>)"
    by (simp add: stream_read_ok)
  with a show "\<exists>r x'. xdr_read sz data0 x = Inr (1, r, x') \<and> \<not> failed (stream x')
            \<and> gpos (stream x') = gpos (stream x) + sizeof_uint"
    by (simp add: xdr_read_Inr)
next
  assume a: "length v \<le> sizeof_uint \<and> length u0 = sizeof_uint \<and> \<not> failed (stream x)
        \<and> ppos (stream x) + sizeof_uint \<le> cap (stream x)"
  define u where "u = (if length v > 1 \<and> need_to_swab x then swab (store v u0) else store v u0)"
  have lu: "length u = sizeof_uint"
    using a by (simp add: u_def swab_def length_store)
  have w: "xdr_write v u0 x =
      Inr (of_bool (\<not> failed (stream_write u (stream x))), x\<lparr>stream := stream_write u (stream x)\<rparr>)"
    using a by (simp add: xdr_write_Inr u_def Let_def)
  have "stream_write u (stream x) =
     (stream x)\<lparr>content := take (ppos (stream x)) (content (stream x)) @ u
          @ drop (ppos (stream x) + length u) (content (stream x)),
       ppos := ppos (stream x) + length u, failed := False\<rparr>"
    using a lu by (simp add: stream_write_ok)
  with w lu show "\<exists>x'. xdr_write v u0 x = Inr (1, x') \<and> \<not> failed (stream x')
            \<and> ppos (stream x') = ppos (stream x) + sizeof_uint"
    by simp
qed

text \<open>The same on a four-byte value, and a five-byte one that is refused.\<close>

theorem xdr_scalar_size_check_witness:
  "xdr_read 4 [0, 0, 0, 0] (XDR Little ex_in) = Inr (1, [4, 3, 2, 1], XDR Little (ex_in\<lparr>gpos := 4\<rparr>))
   \<and> xdr_write [1, 2, 3, 4] [0, 0, 0, 0] (XDR Little ex_out)
        = Inr (1, XDR Little (ex_out\<lparr>content := [4, 3, 2, 1], ppos := 4\<rparr>))
   \<and> xdr_read 5 [0, 0, 0, 0] (XDR Little ex_in)
        = Inl (LogicError ''Attempting to read a POD that is too large'')"
proof -
  have h1: "(4::nat) \<le> sizeof_uint" by (simp add: sizeof_uint_def)
  have h2: "length [1, 2, 3, 4 :: byte] \<le> sizeof_uint \<and> length [0, 0, 0, 0 :: byte] = sizeof_uint"
    by (simp add: sizeof_uint_def)
  have t: "(xdr_read 5 [0, 0, 0, 0] (XDR Little ex_in)
              = Inl (LogicError ''Attempting to read a POD that is too large''))
            = (sizeof_uint < 5)"
    using xdr_scalar_size_check [of 5 "[0, 0, 0, 0]" "XDR Little ex_in"] by blast
  have r: "xdr_read 4 [0, 0, 0, 0] (XDR Little ex_in)
             = Inr (1, [4, 3, 2, 1], XDR Little (ex_in\<lparr>gpos := 4\<rparr>))"
    by (simp add: xdr_read_def XDR_def ex_in_def int_bytes_def le_bytes_def
          store_def swab_def sizeof_uint_def stream_read_def Let_def)
  have w: "xdr_write [1, 2, 3, 4] [0, 0, 0, 0] (XDR Little ex_out)
        = Inr (1, XDR Little (ex_out\<lparr>content := [4, 3, 2, 1], ppos := 4\<rparr>))"
    by (simp add: xdr_write_def XDR_def ex_out_def int_bytes_def le_bytes_def
          store_def swab_def sizeof_uint_def stream_write_def Let_def)
  from t r w h1 h2 show ?thesis by (simp add: sizeof_uint_def)
qed

text \<open>
  C9, as the code has it. A zero-length block request touches no byte of the stream.
  \<open>read\<close> with \<open>n = 0\<close> returns 1, not the payload count 0. \<open>write\<close> with \<open>n = 0\<close>
  returns 0, the payload count, and 0 is also what \<open>write\<close> returns on a failed stream.
\<close>

theorem xdr_zero_block:
  "xdr_read_block p 0 x = (1, p, x)
   \<and> xdr_write_block p 0 x = (0, x)
   \<and> (failed (stream x) \<longrightarrow> fst (xdr_write_block p n x) = 0)"
proof (intro conjI impI)
  show "xdr_read_block p 0 x = (1, p, x)"
    by (simp add: xdr_read_block_def)
  show "xdr_write_block p 0 x = (0, x)"
    by (simp add: xdr_write_block_eq Let_def stream_write_Nil spec_padding_def sizeof_uint_def)
next
  assume f: "failed (stream x)"
  then have "stream_write bs (stream x) = stream x" for bs
    by (simp add: stream_write_def)
  with f show "fst (xdr_write_block p n x) = 0"
    by (simp add: xdr_write_block_eq Let_def)
qed

theorem xdr_zero_block_witness:
  "failed (stream (XDR Little (ex_out\<lparr>failed := True\<rparr>)))
   \<and> fst (xdr_write_block [1, 2, 3] 3 (XDR Little (ex_out\<lparr>failed := True\<rparr>))) = 0
   \<and> xdr_read_block [] 0 (XDR Little ex_in) = (1, [], XDR Little ex_in)"
proof -
  have h: "failed (stream (XDR Little (ex_out\<lparr>failed := True\<rparr>)))"
    by (simp add: XDR_def)
  from xdr_zero_block [of "[1, 2, 3]" "XDR Little (ex_out\<lparr>failed := True\<rparr>)" 3] h
  have "fst (xdr_write_block [1, 2, 3] 3 (XDR Little (ex_out\<lparr>failed := True\<rparr>))) = 0"
    by blast
  moreover from xdr_zero_block [of "[]" "XDR Little ex_in" 0]
  have "xdr_read_block [] 0 (XDR Little ex_in) = (1, [], XDR Little ex_in)"
    by blast
  ultimately show ?thesis using h by simp
qed

text \<open>
  C9 as the claim words it fails: the zero-length read returns 1 rather than zero, and
  the zero-length write returns the value a failed stream gives.
\<close>

theorem xdr_zero_block_counterexample:
  "fst (xdr_read_block [] 0 (XDR Little ex_in)) = 1
   \<and> fst (xdr_write_block [] 0 (XDR Little ex_out))
       = fst (xdr_write_block [] 0 (XDR Little (ex_out\<lparr>failed := True\<rparr>)))"
  by (simp add: xdr_read_block_def xdr_write_block_eq Let_def stream_write_Nil
        spec_padding_def sizeof_uint_def)

text \<open>
  C10. When the \<open>n\<close> payload bytes of a block are there, \<open>read\<close> returns \<open>n\<close> and
  delivers them, whether or not the padding after them can be consumed: the stream is
  left failed exactly when the padding is cut short, and the return value is the same.
\<close>

theorem xdr_read_block_padding_failure:
  assumes "\<not> failed (stream x)" and "0 < n"
      and "gpos (stream x) + n \<le> length (content (stream x))"
  shows "fst (xdr_read_block p n x) = n
       \<and> fst (snd (xdr_read_block p n x)) = store (take n (drop (gpos (stream x)) (content (stream x)))) p
       \<and> failed (stream (snd (snd (xdr_read_block p n x))))
            = (length (content (stream x)) < gpos (stream x) + n + spec_padding n)"
proof -
  define s where "s = stream x"
  have r1: "stream_read n s = (take n (drop (gpos s) (content s)), s\<lparr>gpos := gpos s + n, failed := False\<rparr>)"
    using assms by (simp add: stream_read_ok s_def)
  have a: "\<not> failed s" "gpos s + n \<le> length (content s)"
    using assms by (simp_all add: s_def)
  have r2: "failed (snd (stream_read k (s\<lparr>gpos := gpos s + n, failed := False\<rparr>)))
             = (length (content s) < gpos s + n + k)" for k
    using a by (auto simp add: stream_read_def Let_def)
  show ?thesis
    using assms(2) a
    by (simp add: xdr_read_block_eq s_def[symmetric] r1 r2 Let_def)
qed


theorem xdr_read_block_padding_failure_witness:
  "fst (xdr_read_block [0, 0, 0, 0, 0] 5 (XDR Little ex_in)) = 5
   \<and> fst (snd (xdr_read_block [0, 0, 0, 0, 0] 5 (XDR Little ex_in))) = [1, 2, 3, 4, 5]
   \<and> failed (stream (snd (snd (xdr_read_block [0, 0, 0, 0, 0] 5 (XDR Little ex_in)))))"
proof -
  have h1: "\<not> failed (stream (XDR Little ex_in))" by (simp add: XDR_def ex_in_def)
  have h2: "(0::nat) < 5" by simp
  have h3: "gpos (stream (XDR Little ex_in)) + 5 \<le> length (content (stream (XDR Little ex_in)))"
    by (simp add: XDR_def ex_in_def)
  from xdr_read_block_padding_failure [OF h1 h2 h3, of "[0, 0, 0, 0, 0]"]
  show ?thesis
    by (simp add: XDR_def ex_in_def spec_padding_def sizeof_uint_def store_def)
qed

section \<open>The stream composer: basic facts\<close>

declare findNextUsableTraj.simps [simp del]
declare frameIndexToLocation_loop.simps [simp del]

lemma fnut_fields:
  "mt_trajectories (findNextUsableTraj s) = mt_trajectories s \<and>
   mt_nframes (findNextUsableTraj s) = mt_nframes s \<and>
   mt_skip (findNextUsableTraj s) = mt_skip s \<and>
   mt_stride (findNextUsableTraj s) = mt_stride s \<and>
   mt_curframe (findNextUsableTraj s) = mt_curframe s"
proof (induction s rule: findNextUsableTraj.induct)
  case (1 s)
  show ?case
  proof (cases "mt_curtraj s < length (mt_trajectories s) \<and>
                \<not> traj_nframes (mt_trajectories s ! mt_curtraj s) > mt_skip s")
    case True
    then have "findNextUsableTraj s = findNextUsableTraj (s\<lparr>mt_curtraj := mt_curtraj s + 1\<rparr>)"
      by (subst findNextUsableTraj.simps) simp
    with 1 True show ?thesis by simp
  next
    case False
    then have "findNextUsableTraj s = s"
      by (subst findNextUsableTraj.simps) auto
    then show ?thesis by simp
  qed
qed

lemma fnut_index:
  "mt_curtraj s \<le> mt_curtraj (findNextUsableTraj s) \<and>
   (\<forall>j. mt_curtraj s \<le> j \<and> j < mt_curtraj (findNextUsableTraj s) \<longrightarrow> native s j \<le> mt_skip s) \<and>
   (mt_curtraj (findNextUsableTraj s) < length (mt_trajectories s) \<longrightarrow>
       native s (mt_curtraj (findNextUsableTraj s)) > mt_skip s) \<and>
   (mt_curtraj s \<le> length (mt_trajectories s) \<longrightarrow>
       mt_curtraj (findNextUsableTraj s) \<le> length (mt_trajectories s))"
proof (induction s rule: findNextUsableTraj.induct)
  case (1 s)
  show ?case
  proof (cases "mt_curtraj s < length (mt_trajectories s) \<and>
                \<not> traj_nframes (mt_trajectories s ! mt_curtraj s) > mt_skip s")
    case True
    then have e: "findNextUsableTraj s = findNextUsableTraj (s\<lparr>mt_curtraj := mt_curtraj s + 1\<rparr>)"
      by (subst findNextUsableTraj.simps) simp
    have ih: "mt_curtraj s + 1 \<le> mt_curtraj (findNextUsableTraj s) \<and>
       (\<forall>j. mt_curtraj s + 1 \<le> j \<and> j < mt_curtraj (findNextUsableTraj s) \<longrightarrow> native s j \<le> mt_skip s) \<and>
       (mt_curtraj (findNextUsableTraj s) < length (mt_trajectories s) \<longrightarrow>
           native s (mt_curtraj (findNextUsableTraj s)) > mt_skip s) \<and>
       (mt_curtraj s + 1 \<le> length (mt_trajectories s) \<longrightarrow>
           mt_curtraj (findNextUsableTraj s) \<le> length (mt_trajectories s))"
      using 1 True by (simp add: e native_def)
    have "native s j \<le> mt_skip s" if "mt_curtraj s \<le> j" "j < mt_curtraj (findNextUsableTraj s)" for j
    proof (cases "j = mt_curtraj s")
      case True
      with \<open>mt_curtraj s < length (mt_trajectories s) \<and> _\<close> show ?thesis by (simp add: native_def)
    next
      case False
      with that ih show ?thesis by simp
    qed
    with ih True show ?thesis by auto
  next
    case False
    then have "findNextUsableTraj s = s"
      by (subst findNextUsableTraj.simps) auto
    with False show ?thesis by (auto simp add: native_def)
  qed
qed

lemma traj_nframes_rewind [simp]: "traj_nframes (traj_rewind t) = traj_nframes t"
  by (simp add: traj_nframes_def traj_rewind_def)

lemma traj_nframes_readFrame [simp]: "traj_nframes (snd (traj_readFrame i t)) = traj_nframes t"
  by (simp add: traj_nframes_def traj_readFrame_def)

lemma rewindImpl_cursor:
  "mt_curtraj (rewindImpl s) =
     mt_curtraj (findNextUsableTraj
        (s\<lparr>mt_trajectories := map traj_rewind (mt_trajectories s), mt_curtraj := 0, mt_curframe := mt_skip s\<rparr>))
   \<and> mt_curframe (rewindImpl s) = mt_skip s
   \<and> mt_skip (rewindImpl s) = mt_skip s
   \<and> mt_stride (rewindImpl s) = mt_stride s
   \<and> mt_nframes (rewindImpl s) = mt_nframes s
   \<and> length (mt_trajectories (rewindImpl s)) = length (mt_trajectories s)"
  by (simp add: rewindImpl_def Let_def skip_def fnut_fields)

lemma rewindImpl_first_usable:
  "mt_curtraj (rewindImpl s) \<le> length (mt_trajectories s) \<and>
   (\<forall>j < mt_curtraj (rewindImpl s). native s j \<le> mt_skip s) \<and>
   (mt_curtraj (rewindImpl s) < length (mt_trajectories s) \<longrightarrow>
       native s (mt_curtraj (rewindImpl s)) > mt_skip s)"
proof -
  define s3 where "s3 = s\<lparr>mt_trajectories := map traj_rewind (mt_trajectories s), mt_curtraj := 0, mt_curframe := mt_skip s\<rparr>"
  have c: "mt_curtraj (rewindImpl s) = mt_curtraj (findNextUsableTraj s3)"
    using rewindImpl_cursor[of s] by (simp add: s3_def)
  have n: "native s3 j = native s j" if "j < length (mt_trajectories s)" for j
    using that by (simp add: native_def s3_def)
  have le: "mt_curtraj (findNextUsableTraj s3) \<le> length (mt_trajectories s)"
    using fnut_index[of s3] by (simp add: s3_def)
  show ?thesis
    using fnut_index[of s3] le n unfolding c
    by (auto simp add: s3_def)
qed

lemma rewindImpl_native:
  "j < length (mt_trajectories s) \<Longrightarrow> native (rewindImpl s) j = native s j"
proof -
  assume j: "j < length (mt_trajectories s)"
  define s3 where "s3 = s\<lparr>mt_trajectories := map traj_rewind (mt_trajectories s), mt_curtraj := 0, mt_curframe := mt_skip s\<rparr>"
  have t4: "mt_trajectories (findNextUsableTraj s3) = map traj_rewind (mt_trajectories s)"
    using fnut_fields[of s3] by (simp add: s3_def)
  show ?thesis
    using j
    by (cases "j = mt_curtraj (findNextUsableTraj s3)")
       (simp_all add: rewindImpl_def Let_def skip_def s3_def[symmetric] t4 native_def)
qed

lemma seekNext_stay:
  "\<not> eof s \<Longrightarrow> uadd (mt_curframe s) (mt_stride s) < native s (mt_curtraj s) \<Longrightarrow>
   seekNextFrameImpl s = s\<lparr>mt_curframe := uadd (mt_curframe s) (mt_stride s)\<rparr>"
  by (simp add: seekNextFrameImpl_def Let_def native_def)

lemma seekNext_leave:
  "\<not> eof s \<Longrightarrow> native s (mt_curtraj s) \<le> uadd (mt_curframe s) (mt_stride s) \<Longrightarrow>
   seekNextFrameImpl s =
     findNextUsableTraj (s\<lparr>mt_curframe := mt_skip s, mt_curtraj := mt_curtraj s + 1\<rparr>)"
  by (simp add: seekNextFrameImpl_def Let_def native_def)

lemma seekNext_fields:
  "mt_trajectories (seekNextFrameImpl s) = mt_trajectories s \<and>
   mt_nframes (seekNextFrameImpl s) = mt_nframes s \<and>
   mt_skip (seekNextFrameImpl s) = mt_skip s \<and>
   mt_stride (seekNextFrameImpl s) = mt_stride s"
  by (simp add: seekNextFrameImpl_def Let_def fnut_fields)

lemma seekNext_steps_over:
  assumes "\<not> eof s"
  shows "mt_curtraj (seekNextFrameImpl s) = mt_curtraj s \<or>
         (mt_curtraj s < mt_curtraj (seekNextFrameImpl s) \<and>
          mt_curtraj (seekNextFrameImpl s) \<le> length (mt_trajectories s) \<and>
          (\<forall>j. mt_curtraj s < j \<and> j < mt_curtraj (seekNextFrameImpl s) \<longrightarrow> native s j \<le> mt_skip s) \<and>
          (mt_curtraj (seekNextFrameImpl s) < length (mt_trajectories s) \<longrightarrow>
             native s (mt_curtraj (seekNextFrameImpl s)) > mt_skip s))"
proof (cases "uadd (mt_curframe s) (mt_stride s) < native s (mt_curtraj s)")
  case True
  with assms show ?thesis by (simp add: seekNext_stay)
next
  case False
  define s1 where "s1 = s\<lparr>mt_curframe := mt_skip s, mt_curtraj := mt_curtraj s + 1\<rparr>"
  have e: "seekNextFrameImpl s = findNextUsableTraj s1"
    using assms False by (simp add: seekNext_leave s1_def)
  have n: "native s1 j = native s j" for j by (simp add: native_def s1_def)
  have "mt_curtraj s1 \<le> length (mt_trajectories s1)"
    using assms by (simp add: eof_def s1_def)
  with fnut_index[of s1] show ?thesis
    unfolding e n by (auto simp add: s1_def)
qed

lemma rewind_usable_or_end: "usable_or_end (rewindImpl s)"
proof (cases "eof (rewindImpl s)")
  case True
  then show ?thesis by (simp add: usable_or_end_def)
next
  case False
  then have lt: "mt_curtraj (rewindImpl s) < length (mt_trajectories s)"
    using rewindImpl_cursor[of s] by (simp add: eof_def)
  with rewindImpl_first_usable[of s] rewindImpl_native[OF lt] rewindImpl_cursor[of s]
  show ?thesis by (simp add: usable_or_end_def native_def)
qed

lemma seekNext_usable_or_end: "usable_or_end s \<Longrightarrow> usable_or_end (seekNextFrameImpl s)"
proof (cases "eof s")
  case True
  then show ?thesis by (simp add: seekNextFrameImpl_def usable_or_end_def)
next
  case False
  assume u: "usable_or_end s"
  from seekNext_steps_over[OF False] seekNext_fields[of s] u False
  show ?thesis
    by (auto simp add: usable_or_end_def native_def eof_def)
qed

lemma iterate_usable_or_end: "usable_or_end ((seekNextFrameImpl ^^ n) (rewindImpl s))"
  by (induction n) (simp_all add: rewind_usable_or_end seekNext_usable_or_end)


subsection \<open>The examples, evaluated\<close>

lemma traj_nframes_traj_of: "traj_nframes (traj_of fs) = length fs"
  by (simp add: traj_nframes_def traj_of_def)

lemma nframes_record:
  "nframes \<lparr>mt_trajectories = ts, mt_nframes = n, mt_skip = sk, mt_stride = st,
            mt_curtraj = c, mt_curframe = f\<rparr> k =
     (if traj_nframes (ts ! k) > sk then (traj_nframes (ts ! k) - sk - 1) div st + 1 else 0)"
  by (simp add: nframes_def Let_def)

lemma ex_mt_eq:
  "ex_mt = \<lparr>mt_trajectories = [traj_of [0..<10], traj_of [0..<5], traj_of [0..<20]],
     mt_nframes = 10, mt_skip = 2, mt_stride = 3, mt_curtraj = 0, mt_curframe = 0\<rparr>"
  by (simp add: ex_mt_def MultiTrajectory_def initWithList_def Let_def nframes_record uadd_def
       uint_max_def traj_nframes_traj_of)

lemma ex_wrap_eq:
  "ex_wrap = \<lparr>mt_trajectories = [traj_of [0..<10], traj_of [0..<10]],
     mt_nframes = 2, mt_skip = 2, mt_stride = 4294967295, mt_curtraj = 0, mt_curframe = 0\<rparr>"
  by (simp add: ex_wrap_def MultiTrajectory_def initWithList_def Let_def nframes_record uadd_def
       uint_max_def traj_nframes_traj_of)

lemma ex_gap_eq:
  "ex_gap = \<lparr>mt_trajectories = [traj_of [0..<1], traj_of [10..<20], traj_of [0..<2], traj_of [30..<35]],
     mt_nframes = 4, mt_skip = 2, mt_stride = 3, mt_curtraj = 0, mt_curframe = 0\<rparr>"
  by (simp add: ex_gap_def MultiTrajectory_def initWithList_def Let_def nframes_record uadd_def
       uint_max_def traj_nframes_traj_of)

lemmas mt_eval =
  cursor_def rewindImpl_def seekNextFrameImpl_def seekFrameImpl_def parseFrame_def
  updateGroupCoordsImpl_def frameIndexToLocation_def frameIndexToLocation_loop.simps
  findNextUsableTraj.simps Let_def skip_def eof_def nframes_def traj_nframes_def traj_of_def
  traj_readFrame_def traj_rewind_def traj_updateGroupCoords_def
  uadd_def usub_def umul_def uint_max_def

subsection \<open>Virtual indices and their owning source\<close>

lemma base_0 [simp]: "base s 0 = 0"
  by (simp add: base_def)

lemma base_Suc [simp]: "base s (Suc c) = base s c + nframes s c"
  by (simp add: base_def)

lemma base_mono: "a \<le> b \<Longrightarrow> base s a \<le> base s b"
  by (induction b) (auto simp add: le_Suc_eq)

lemma base_step_le: "c < b \<Longrightarrow> base s c + nframes s c \<le> base s b"
  using base_mono[of "Suc c" b s] by simp

lemma owner_unique:
  assumes "base s c \<le> i" "i < base s c + nframes s c"
      and "base s c' \<le> i" "i < base s c' + nframes s c'"
  shows "c = c'"
proof (rule ccontr)
  assume "c \<noteq> c'"
  then consider "c < c'" | "c' < c" by arith
  then show False
  proof cases
    case 1
    from base_step_le[OF 1, of s] assms show False by simp
  next
    case 2
    from base_step_le[OF 2, of s] assms show False by simp
  qed
qed

lemma base_skip_zero:
  "a \<le> b \<Longrightarrow> (\<forall>j. a \<le> j \<and> j < b \<longrightarrow> nframes s j = 0) \<Longrightarrow> base s b = base s a"
  by (induction b) (auto simp add: le_Suc_eq)

lemma uadd_small: "a + b < uint_max \<Longrightarrow> uadd a b = a + b"
  by (simp add: uadd_def)

lemma usub_small: "b \<le> a \<Longrightarrow> a < uint_max \<Longrightarrow> usub a b = a - b"
proof -
  assume h: "b \<le> a" "a < uint_max"
  have bm: "b mod uint_max = b" using h by simp
  have e: "a + uint_max - b = (a - b) + uint_max" using h by arith
  have "usub a b = (a + uint_max - b) mod uint_max" by (simp only: usub_def bm)
  also have "\<dots> = (a - b) mod uint_max" by (simp only: e mod_add_self2)
  also have "\<dots> = a - b" using h by simp
  finally show ?thesis .
qed

lemma umul_small: "a * b < uint_max \<Longrightarrow> umul a b = a * b"
  by (simp add: umul_def)

lemma loop_owner:
  assumes "base s (length (mt_trajectories s)) < uint_max"
      and "base s k \<le> i" "i < base s (length (mt_trajectories s))" "k \<le> length (mt_trajectories s)"
  shows "\<exists>c. frameIndexToLocation_loop s i k (base s k) = (c, base s c)
           \<and> c < length (mt_trajectories s) \<and> base s c \<le> i \<and> i < base s c + nframes s c"
  using assms(2,4)
proof (induction "length (mt_trajectories s) - k" arbitrary: k)
  case 0
  then have "k = length (mt_trajectories s)" by simp
  with 0 assms(3) show ?case by simp
next
  case (Suc d)
  then have kl: "k < length (mt_trajectories s)" by simp
  have "base s (Suc k) \<le> base s (length (mt_trajectories s))"
    using kl by (intro base_mono) simp
  then have nw: "uadd (base s k) (nframes s k) = base s k + nframes s k"
    using assms(1) by (simp add: uadd_small)
  show ?case
  proof (cases "base s k + nframes s k > i")
    case True
    then have "frameIndexToLocation_loop s i k (base s k) = (k, base s k)"
      using kl nw by (subst frameIndexToLocation_loop.simps) (simp add: Let_def)
    with True kl Suc.prems show ?thesis by simp
  next
    case False
    then have e: "frameIndexToLocation_loop s i k (base s k) =
                  frameIndexToLocation_loop s i (Suc k) (base s (Suc k))"
      using kl nw by (subst frameIndexToLocation_loop.simps) (simp add: Let_def)
    have "d = length (mt_trajectories s) - Suc k" using Suc.hyps(2) by simp
    moreover have "base s (Suc k) \<le> i" using False by simp
    moreover have "Suc k \<le> length (mt_trajectories s)" using kl by simp
    ultimately show ?thesis
      using Suc.hyps(1)[of "Suc k"] e by simp
  qed
qed

lemma usable_bound:
  assumes "m < nframes s c" "1 \<le> mt_stride s"
  shows "mt_skip s + m * mt_stride s < native s c"
proof -
  from assms(1) have gt: "native s c > mt_skip s"
    by (auto simp add: nframes_def native_def Let_def split: if_splits)
  with assms(1) have "m \<le> (native s c - mt_skip s - 1) div mt_stride s"
    by (simp add: nframes_def native_def Let_def)
  then have "m * mt_stride s \<le> native s c - mt_skip s - 1"
    using assms(2) by (simp add: less_eq_div_iff_mult_less_eq)
  with gt show ?thesis by arith
qed

lemma usable_last:
  assumes "nframes s c = Suc m" "1 \<le> mt_stride s"
  shows "native s c \<le> mt_skip s + Suc m * mt_stride s"
proof -
  from assms(1) have gt: "native s c > mt_skip s"
    by (auto simp add: nframes_def native_def Let_def split: if_splits)
  with assms(1) have "(native s c - mt_skip s - 1) div mt_stride s < Suc m"
    by (simp add: nframes_def native_def Let_def)
  then have "native s c - mt_skip s - 1 < Suc m * mt_stride s"
    using assms(2) by (simp add: div_less_iff_less_mult)
  then show ?thesis by arith
qed

lemma location_of_owner:
  assumes st: "1 \<le> mt_stride s"
      and nat: "\<forall>n \<in> set (natives s). n + mt_stride s \<le> uint_max"
      and tot: "base s (length (mt_trajectories s)) < uint_max"
      and c: "c < length (mt_trajectories s)"
      and own: "base s c \<le> i" "i < base s c + nframes s c"
  shows "frameIndexToLocation s i = (c, mt_skip s + (i - base s c) * mt_stride s)"
proof -
  have it: "i < base s (length (mt_trajectories s))"
    using base_step_le[OF c, of s] own by simp
  from loop_owner[OF tot _ it, of 0]
  obtain c0 where l: "frameIndexToLocation_loop s i 0 0 = (c0, base s c0)"
    and o: "base s c0 \<le> i" "i < base s c0 + nframes s c0"
    by auto
  have cc: "c0 = c" using owner_unique[OF o own] .
  have "native s c \<in> set (natives s)"
    using c by (simp add: natives_def native_def)
  with nat have nb: "native s c + mt_stride s \<le> uint_max" by simp
  have m: "i - base s c < nframes s c" using own by arith
  have b: "mt_skip s + (i - base s c) * mt_stride s < native s c"
    using usable_bound[OF m st] .
  have i: "i < uint_max" using it tot by simp
  have "usub i (base s c) = i - base s c"
    using own(1) i by (rule usub_small)
  moreover have "umul (i - base s c) (mt_stride s) = (i - base s c) * mt_stride s"
    using b nb by (intro umul_small) arith
  moreover have "uadd (mt_skip s) ((i - base s c) * mt_stride s) = mt_skip s + (i - base s c) * mt_stride s"
    using b nb by (intro uadd_small) arith
  ultimately show ?thesis
    by (simp add: frameIndexToLocation_def l cc)
qed

lemma advance_within:
  assumes st: "1 \<le> mt_stride t"
      and nat: "\<forall>n \<in> set (natives t). n + mt_stride t \<le> uint_max"
      and c: "mt_curtraj t < length (mt_trajectories t)"
      and f: "mt_curframe t = mt_skip t + m * mt_stride t"
      and m: "Suc m < nframes t (mt_curtraj t)"
  shows "seekNextFrameImpl t = t\<lparr>mt_curframe := mt_skip t + Suc m * mt_stride t\<rparr>"
proof -
  have b: "mt_skip t + Suc m * mt_stride t < native t (mt_curtraj t)"
    using usable_bound[OF m st] .
  have "native t (mt_curtraj t) \<in> set (natives t)"
    using c by (simp add: natives_def native_def)
  with nat have nb: "native t (mt_curtraj t) + mt_stride t \<le> uint_max" by simp
  have u: "uadd (mt_curframe t) (mt_stride t) = mt_skip t + Suc m * mt_stride t"
    using b nb by (simp add: f uadd_small)
  have "\<not> eof t" using c by (simp add: eof_def)
  then show ?thesis
    using seekNext_stay[of t] b by (simp add: u)
qed

lemma advance_leave:
  assumes st: "1 \<le> mt_stride t"
      and nat: "\<forall>n \<in> set (natives t). n + mt_stride t \<le> uint_max"
      and c: "mt_curtraj t < length (mt_trajectories t)"
      and f: "mt_curframe t = mt_skip t + m * mt_stride t"
      and m: "nframes t (mt_curtraj t) = Suc m"
  shows "seekNextFrameImpl t =
           findNextUsableTraj (t\<lparr>mt_curframe := mt_skip t, mt_curtraj := mt_curtraj t + 1\<rparr>)"
proof -
  have b: "native t (mt_curtraj t) \<le> mt_skip t + Suc m * mt_stride t"
    using usable_last[OF m st] .
  have "m < nframes t (mt_curtraj t)" using m by simp
  from usable_bound[OF this st]
  have b2: "mt_skip t + m * mt_stride t < native t (mt_curtraj t)" .
  have "native t (mt_curtraj t) \<in> set (natives t)"
    using c by (simp add: natives_def native_def)
  with nat have nb: "native t (mt_curtraj t) + mt_stride t \<le> uint_max" by simp
  have u: "uadd (mt_curframe t) (mt_stride t) = mt_skip t + Suc m * mt_stride t"
    using b2 nb by (simp add: f uadd_small)
  have "\<not> eof t" using c by (simp add: eof_def)
  then show ?thesis
    using seekNext_leave[of t] b by (simp add: u)
qed

lemma same_sources_length:
  "same_sources s t \<Longrightarrow> length (mt_trajectories t) = length (mt_trajectories s)"
  by (auto simp add: same_sources_def natives_def dest: map_eq_imp_length_eq)

lemma same_sources_native:
  assumes "same_sources s t" "j < length (mt_trajectories s)"
  shows "native t j = native s j"
proof -
  have "natives t ! j = natives s ! j" using assms(1) by (simp add: same_sources_def)
  then show ?thesis
    using assms(2) same_sources_length[OF assms(1)] by (simp add: natives_def native_def)
qed

lemma same_sources_nframes:
  assumes "same_sources s t" "j < length (mt_trajectories s)"
  shows "nframes t j = nframes s j"
  using same_sources_native[OF assms] assms(1)
  by (simp add: nframes_def native_def same_sources_def Let_def)

lemma same_sources_base:
  assumes "same_sources s t"
  shows "c \<le> length (mt_trajectories s) \<Longrightarrow> base t c = base s c"
  by (induction c) (simp_all add: same_sources_nframes[OF assms])

lemma same_sources_in_range:
  assumes "same_sources s t" "in_range s"
  shows "in_range t"
  using assms same_sources_base[OF assms(1), of "length (mt_trajectories s)"]
        same_sources_length[OF assms(1)]
  by (simp add: in_range_def same_sources_def)

lemma same_sources_refl [simp]: "same_sources s s"
  by (simp add: same_sources_def)

lemma same_sources_trans: "same_sources s t \<Longrightarrow> same_sources t u \<Longrightarrow> same_sources s u"
  by (simp add: same_sources_def)

lemma same_sources_seekNext: "same_sources t (seekNextFrameImpl t)"
  using seekNext_fields[of t] by (simp add: same_sources_def natives_def)

lemma same_sources_rewind: "same_sources s (rewindImpl s)"
proof -
  have "natives (rewindImpl s) = natives s"
    using rewindImpl_cursor[of s] rewindImpl_native[of _ s]
    by (intro nth_equalityI) (simp_all add: natives_def native_def)
  then show ?thesis
    using rewindImpl_cursor[of s] by (simp add: same_sources_def)
qed

lemma nframes_zero: "native s j \<le> mt_skip s \<Longrightarrow> nframes s j = 0"
  by (simp add: nframes_def native_def Let_def)

lemma nframes_pos: "native s j > mt_skip s \<Longrightarrow> 0 < nframes s j"
  by (simp add: nframes_def native_def Let_def)

lemma rewind_at_index:
  assumes "0 < base s (length (mt_trajectories s))"
  shows "at_index (rewindImpl s) 0"
proof -
  define t where "t = rewindImpl s"
  define c where "c = mt_curtraj t"
  have ss: "same_sources s t" unfolding t_def by (rule same_sources_rewind)
  have fu: "c \<le> length (mt_trajectories s)" "\<forall>j < c. native s j \<le> mt_skip s"
       "c < length (mt_trajectories s) \<longrightarrow> native s c > mt_skip s"
    using rewindImpl_first_usable[of s] by (simp_all add: c_def t_def)
  have b0: "base s c = 0"
    using base_skip_zero[of 0 c s] fu(2) by (simp add: nframes_zero)
  have lt: "c < length (mt_trajectories s)"
  proof (rule ccontr)
    assume "\<not> c < length (mt_trajectories s)"
    with fu(1) have "c = length (mt_trajectories s)" by simp
    with b0 assms show False by simp
  qed
  with fu(3) have np: "0 < nframes s c" by (simp add: nframes_pos)
  have cf: "mt_curframe t = mt_skip t"
    using rewindImpl_cursor[of s] by (simp add: t_def)
  have "base t c = 0" using same_sources_base[OF ss, of c] lt b0 by simp
  moreover have "0 < nframes t c" using same_sources_nframes[OF ss lt] np by simp
  moreover have "c < length (mt_trajectories t)" using same_sources_length[OF ss] lt by simp
  ultimately show ?thesis
    using cf unfolding t_def[symmetric] by (simp add: at_index_def c_def[symmetric])
qed

lemma advance_at_index:
  assumes r: "in_range t"
      and a: "at_index t i"
      and n: "Suc i < base t (length (mt_trajectories t))"
  shows "at_index (seekNextFrameImpl t) (Suc i)"
proof -
  define c where "c = mt_curtraj t"
  define m where "m = i - base t c"
  define t' where "t' = seekNextFrameImpl t"
  have st: "1 \<le> mt_stride t" and nat: "\<forall>n \<in> set (natives t). n + mt_stride t \<le> uint_max"
    using r by (simp_all add: in_range_def)
  have c: "mt_curtraj t < length (mt_trajectories t)"
    and own: "base t c \<le> i" "i < base t c + nframes t c"
    and f: "mt_curframe t = mt_skip t + m * mt_stride t"
    using a by (simp_all add: at_index_def c_def m_def)
  have ss: "same_sources t t'" unfolding t'_def by (rule same_sources_seekNext)
  have len: "length (mt_trajectories t') = length (mt_trajectories t)"
    using same_sources_length[OF ss] .
  have sk: "mt_skip t' = mt_skip t" "mt_stride t' = mt_stride t"
    using ss by (simp_all add: same_sources_def)
  show ?thesis
  proof (cases "Suc m < nframes t c")
    case True
    then have e: "t' = t\<lparr>mt_curframe := mt_skip t + Suc m * mt_stride t\<rparr>"
      unfolding t'_def c_def using advance_within[OF st nat c f] by simp
    have ct: "mt_curtraj t' = c" by (simp add: e c_def)
    have "base t' c = base t c" "nframes t' c = nframes t c"
      using same_sources_base[OF ss, of c] same_sources_nframes[OF ss, of c] c
      by (simp_all add: c_def)
    moreover have "Suc i - base t c = Suc m" using own by (simp add: m_def)
    moreover have "mt_curframe t' = mt_skip t + Suc m * mt_stride t" by (simp add: e)
    ultimately show ?thesis
      using True own c len sk
      unfolding t'_def[symmetric] by (simp add: at_index_def ct m_def c_def)
  next
    case False
    with own have last: "nframes t c = Suc m" by (simp add: m_def)
    define t1 where "t1 = t\<lparr>mt_curframe := mt_skip t, mt_curtraj := c + 1\<rparr>"
    have e: "t' = findNextUsableTraj t1"
      unfolding t'_def t1_def c_def using advance_leave[OF st nat c f] last by (simp add: c_def)
    define c' where "c' = mt_curtraj t'"
    have n1: "native t1 j = native t j" for j by (simp add: native_def t1_def)
    have "mt_curtraj t1 \<le> length (mt_trajectories t1)" using c by (simp add: t1_def c_def)
    with fnut_index[of t1]
    have fu: "Suc c \<le> c'" "\<forall>j. Suc c \<le> j \<and> j < c' \<longrightarrow> native t j \<le> mt_skip t"
       "c' < length (mt_trajectories t) \<longrightarrow> native t c' > mt_skip t"
       "c' \<le> length (mt_trajectories t)"
      unfolding e[symmetric] n1 c'_def[symmetric] by (simp_all add: t1_def)
    have bc: "base t c' = base t (Suc c)"
      using base_skip_zero[of "Suc c" c' t] fu(1,2) by (simp add: nframes_zero)
    have bs: "base t (Suc c) = Suc i" using last own by (simp add: m_def)
    have lt: "c' < length (mt_trajectories t)"
    proof (rule ccontr)
      assume "\<not> c' < length (mt_trajectories t)"
      with fu(4) have "c' = length (mt_trajectories t)" by simp
      with bc bs n show False by simp
    qed
    with fu(3) have np: "0 < nframes t c'" by (simp add: nframes_pos)
    have cf: "mt_curframe t' = mt_skip t"
      using fnut_fields[of t1] by (simp add: e t1_def)
    have "base t' c' = Suc i" "0 < nframes t' c'"
      using same_sources_base[OF ss, of c'] same_sources_nframes[OF ss, of c'] lt bc bs np
      by simp_all
    then show ?thesis
      using lt len cf sk unfolding t'_def[symmetric]
      by (simp add: at_index_def c'_def[symmetric])
  qed
qed

lemma iterate_at_index:
  assumes r: "in_range s"
  shows "k < base s (length (mt_trajectories s)) \<Longrightarrow>
         same_sources s ((seekNextFrameImpl ^^ k) (rewindImpl s))
         \<and> at_index ((seekNextFrameImpl ^^ k) (rewindImpl s)) k"
proof (induction k)
  case 0
  then show ?case by (simp add: same_sources_rewind rewind_at_index)
next
  case (Suc k)
  define t where "t = (seekNextFrameImpl ^^ k) (rewindImpl s)"
  from Suc have ss: "same_sources s t" and a: "at_index t k"
    by (simp_all add: t_def)
  have rt: "in_range t" using same_sources_in_range[OF ss r] .
  have "base t (length (mt_trajectories t)) = base s (length (mt_trajectories s))"
    using same_sources_base[OF ss, of "length (mt_trajectories s)"] same_sources_length[OF ss]
    by simp
  with Suc.prems have n: "Suc k < base t (length (mt_trajectories t))" by simp
  have "at_index (seekNextFrameImpl t) (Suc k)"
    using advance_at_index[OF rt a n] .
  moreover have "same_sources s (seekNextFrameImpl t)"
    using same_sources_trans[OF ss same_sources_seekNext] .
  ultimately show ?case by (simp add: t_def)
qed

lemma at_index_location:
  assumes r: "in_range s" and ss: "same_sources s t" and a: "at_index t k"
  shows "cursor t = frameIndexToLocation s k"
proof -
  define c where "c = mt_curtraj t"
  have len: "length (mt_trajectories t) = length (mt_trajectories s)"
    using same_sources_length[OF ss] .
  have c: "c < length (mt_trajectories s)" using a len by (simp add: at_index_def c_def)
  have b: "base t c = base s c" using same_sources_base[OF ss, of c] c by simp
  have n: "nframes t c = nframes s c" using same_sources_nframes[OF ss c] .
  have own: "base s c \<le> k" "k < base s c + nframes s c"
    using a b n by (simp_all add: at_index_def c_def)
  have f: "mt_curframe t = mt_skip s + (k - base s c) * mt_stride s"
    using a b ss by (simp add: at_index_def c_def same_sources_def)
  have "frameIndexToLocation s k = (c, mt_skip s + (k - base s c) * mt_stride s)"
    using r location_of_owner[OF _ _ _ c own] by (simp add: in_range_def)
  then show ?thesis by (simp add: cursor_def f c_def)
qed

lemma three_sources:
  assumes "map traj_nframes trajs = [10, 5, 20]"
  obtains a b c where "trajs = [a, b, c]" "traj_nframes a = 10" "traj_nframes b = 5" "traj_nframes c = 20"
  using assms by (auto simp add: map_eq_Cons_conv)

lemma mt_three:
  assumes "traj_nframes a = 10" "traj_nframes b = 5" "traj_nframes c = 20"
  shows "MultiTrajectory [a, b, c] 2 3 =
     \<lparr>mt_trajectories = [a, b, c], mt_nframes = 10, mt_skip = 2, mt_stride = 3,
      mt_curtraj = 0, mt_curframe = 0\<rparr>"
  using assms
  by (simp add: MultiTrajectory_def initWithList_def Let_def nframes_def uadd_def uint_max_def)

lemma loc_three:
  assumes "traj_nframes a = 10" "traj_nframes b = 5" "traj_nframes c = 20"
      and "i < 10"
  shows "frameIndexToLocation \<lparr>mt_trajectories = [a, b, c], mt_nframes = 10, mt_skip = 2, mt_stride = 3,
      mt_curtraj = cc, mt_curframe = cf\<rparr> i =
       (if i < 3 then (0, 2 + (i - 0) * 3) else if i < 4 then (1, 2 + (i - 3) * 3) else (2, 2 + (i - 4) * 3))"
proof -
  from \<open>i < 10\<close> have "i = 0 \<or> i = 1 \<or> i = 2 \<or> i = 3 \<or> i = 4 \<or> i = 5 \<or> i = 6 \<or> i = 7 \<or> i = 8 \<or> i = 9"
    by arith
  then show ?thesis
    using assms(1-3)
    by (elim disjE)
       (simp_all add: frameIndexToLocation_def frameIndexToLocation_loop.simps Let_def nframes_def
          uadd_def usub_def umul_def uint_max_def)
qed


lemma owner_three:
  assumes n: "traj_nframes a = 10" "traj_nframes b = 5" "traj_nframes c = 20"
      and i: "i < 10" and k: "k < 3"
      and S: "S = \<lparr>mt_trajectories = [a, b, c], mt_nframes = 10, mt_skip = 2, mt_stride = 3,
                   mt_curtraj = 0, mt_curframe = 0\<rparr>"
  shows "(base S k \<le> i \<and> i < base S k + nframes S k)
         = (map_sum id cursor (seekFrameImpl S i) = Inr (k, 2 + (i - base S k) * 3))"
proof -
  have nf: "nframes S 0 = 3" "nframes S 1 = 1" "nframes S 2 = 6"
    using n by (simp_all add: nframes_def S Let_def)
  have b: "base S 0 = 0" "base S 1 = 3" "base S 2 = 4"
    using nf by (simp_all add: base_def upt_rec)
  have seek: "map_sum id cursor (seekFrameImpl S i) =
       Inr (if i < 3 then (0, 2 + (i - 0) * 3)
            else if i < 4 then (1, 2 + (i - 3) * 3) else (2, 2 + (i - 4) * 3))"
    using loc_three[OF n i, of 0 0] i
    by (simp add: seekFrameImpl_def Let_def cursor_def S)
  have s1: "nframes S (Suc 0) = 1" "base S (Suc 0) = 3"
    using nf b by simp_all
  from k have "k = 0 \<or> k = 1 \<or> k = 2" by arith
  then show ?thesis
    using i by (elim disjE) (auto simp add: seek nf b s1)
qed

subsection \<open>What the constructor establishes\<close>

text \<open>
  \<open>initWithList\<close> leaves in \<open>_nframes\<close> the sum of the usable counts, modulo \<open>2^32\<close>.
\<close>

lemma nframes_append:
  "k < length (mt_trajectories s) \<Longrightarrow>
   nframes (s\<lparr>mt_trajectories := mt_trajectories s @ ts\<rparr>) k = nframes s k"
  by (simp add: nframes_def Let_def nth_append)

lemma nframes_total_update [simp]:
  "nframes (s\<lparr>mt_nframes := n\<rparr>) k = nframes s k"
  by (simp add: nframes_def Let_def)

lemma initWithList_loop_fields:
  "mt_trajectories (initWithList_loop trajs i s) = mt_trajectories s @ trajs
   \<and> mt_skip (initWithList_loop trajs i s) = mt_skip s
   \<and> mt_stride (initWithList_loop trajs i s) = mt_stride s
   \<and> mt_curtraj (initWithList_loop trajs i s) = mt_curtraj s
   \<and> mt_curframe (initWithList_loop trajs i s) = mt_curframe s"
  by (induction trajs arbitrary: i s) (simp_all add: Let_def)

lemma uint_max_pos: "0 < uint_max"
  by (simp add: uint_max_def)

lemma initWithList_loop_total:
  "i = length (mt_trajectories s) \<Longrightarrow> mt_nframes s < uint_max \<Longrightarrow>
   mt_nframes (initWithList_loop trajs i s) =
     (mt_nframes s
       + sum_list (map (nframes (s\<lparr>mt_trajectories := mt_trajectories s @ trajs\<rparr>))
                   [i..<i + length trajs])) mod uint_max"
proof (induction trajs arbitrary: i s)
  case Nil
  then show ?case by simp
next
  case (Cons t ts)
  define s1 where "s1 = s\<lparr>mt_trajectories := mt_trajectories s @ [t]\<rparr>"
  define s2 where "s2 = s1\<lparr>mt_nframes := uadd (mt_nframes s1) (nframes s1 i)\<rparr>"
  define sf where "sf = s\<lparr>mt_trajectories := mt_trajectories s @ t # ts\<rparr>"
  have e: "initWithList_loop (t # ts) i s = initWithList_loop ts (i + 1) s2"
    by (simp add: Let_def s1_def s2_def)
  have l2: "i + 1 = length (mt_trajectories s2)"
    using Cons.prems(1) by (simp add: s2_def s1_def)
  have b2: "mt_nframes s2 < uint_max"
    by (simp add: s2_def uadd_def uint_max_pos)
  have sf2: "s2\<lparr>mt_trajectories := mt_trajectories s2 @ ts\<rparr> = sf\<lparr>mt_nframes := mt_nframes s2\<rparr>"
    by (simp add: s2_def s1_def sf_def)
  have n1: "nframes s1 i = nframes sf i"
    using Cons.prems(1) nframes_append[of i s1 ts] by (simp add: s1_def sf_def)
  have "mt_nframes (initWithList_loop ts (i + 1) s2) =
          (mt_nframes s2 + sum_list (map (nframes sf) [i + 1..<i + 1 + length ts])) mod uint_max"
    using Cons.IH[OF l2 b2] by (simp add: sf2)
  also have "mt_nframes s2 = (mt_nframes s + nframes sf i) mod uint_max"
    using n1 by (simp add: s2_def uadd_def) (simp add: s1_def)
  also have "((mt_nframes s + nframes sf i) mod uint_max
                + sum_list (map (nframes sf) [i + 1..<i + 1 + length ts])) mod uint_max
           = (mt_nframes s + (nframes sf i
                + sum_list (map (nframes sf) [i + 1..<i + 1 + length ts]))) mod uint_max"
    by (simp add: mod_add_left_eq add.assoc)
  also have "nframes sf i + sum_list (map (nframes sf) [i + 1..<i + 1 + length ts])
           = sum_list (map (nframes sf) [i..<i + length (t # ts)])"
  proof -
    have "i < i + length (t # ts)" by simp
    from upt_conv_Cons[OF this]
    have "[i..<i + length (t # ts)] = i # [Suc i..<i + length (t # ts)]" .
    moreover have "i + length (t # ts) = i + 1 + length ts" by simp
    ultimately have "[i..<i + length (t # ts)] = i # [i + 1..<i + 1 + length ts]"
      by (simp only: Suc_eq_plus1)
    then show ?thesis by (simp only: list.map sum_list.Cons)
  qed
  finally have r: "mt_nframes (initWithList_loop ts (i + 1) s2) =
      (mt_nframes s + sum_list (map (nframes sf) [i..<i + length (t # ts)])) mod uint_max" .
  show ?case unfolding e using r by (simp only: sf_def)
qed

lemma MultiTrajectory_fields:
  "mt_trajectories (MultiTrajectory trajs sk st) = trajs
   \<and> mt_skip (MultiTrajectory trajs sk st) = sk
   \<and> mt_stride (MultiTrajectory trajs sk st) = st"
  by (simp add: MultiTrajectory_def initWithList_def initWithList_loop_fields)

lemma MultiTrajectory_total:
  "mt_nframes (MultiTrajectory trajs sk st)
     = sum_list (map (nframes (MultiTrajectory trajs sk st)) [0..<length trajs]) mod uint_max"
proof -
  define s0 where "s0 = \<lparr>mt_trajectories = [] :: 'a trajectory list, mt_nframes = 0, mt_skip = sk,
        mt_stride = st, mt_curtraj = 0, mt_curframe = 0\<rparr>"
  have fe: "nframes (s0\<lparr>mt_trajectories := mt_trajectories s0 @ trajs\<rparr>)
          = nframes (MultiTrajectory trajs sk st)"
    using MultiTrajectory_fields[of trajs sk st]
    by (intro ext) (simp add: nframes_def Let_def s0_def)
  have "mt_nframes (initWithList_loop trajs 0 s0) =
     (mt_nframes s0 + sum_list (map (nframes (MultiTrajectory trajs sk st))
                   [0..<0 + length trajs])) mod uint_max"
    unfolding fe[symmetric]
    by (rule initWithList_loop_total) (simp_all add: s0_def uint_max_pos)
  then show ?thesis
    by (simp add: MultiTrajectory_def initWithList_def s0_def)
qed

section \<open>Claims about the stream composer\<close>

text \<open>
  C1. A stream built over three sources with native frame counts 10, 5 and 20, with
  \<open>skip = 2\<close> and \<open>stride = 3\<close>, has the usable counts 3, 1 and 6 and the total 10.
  \<open>seek(0)\<close> puts the cursor on source 0 at native offset 2, \<open>seek(3)\<close> on source 1 at
  offset 2, \<open>seek(4)\<close> on source 2 at offset 2 and \<open>seek(9)\<close> on source 2 at offset 17.
  \<open>seek(i)\<close> fails as out of range exactly when \<open>i\<close> is at least 10, and every index below
  10 lands in the one source that owns it (bases 0, 3 and 4) at
  \<open>skip + (i - base) * stride\<close>: source \<open>k\<close> holds \<open>i\<close> in its range of virtual
  indices if and only if \<open>seek(i)\<close> puts the cursor on \<open>k\<close> at that offset.
\<close>

theorem multi_source_indexing:
  assumes "map traj_nframes trajs = [10, 5, 20]"
  shows "map (nframes (MultiTrajectory trajs 2 3)) [0, 1, 2] = [3, 1, 6]
       \<and> mt_nframes (MultiTrajectory trajs 2 3) = 10
       \<and> map_sum id cursor (seekFrameImpl (MultiTrajectory trajs 2 3) 0) = Inr (0, 2)
       \<and> map_sum id cursor (seekFrameImpl (MultiTrajectory trajs 2 3) 3) = Inr (1, 2)
       \<and> map_sum id cursor (seekFrameImpl (MultiTrajectory trajs 2 3) 4) = Inr (2, 2)
       \<and> map_sum id cursor (seekFrameImpl (MultiTrajectory trajs 2 3) 9) = Inr (2, 17)
       \<and> seekFrameImpl (MultiTrajectory trajs 2 3) 10 = Inl (FileReadError ''Cannot seek past end of MultiTraj'')
       \<and> (\<forall>i. (seekFrameImpl (MultiTrajectory trajs 2 3) i
                 = Inl (FileReadError ''Cannot seek past end of MultiTraj'')) = (10 \<le> i))
       \<and> (\<forall>i<10. map_sum id cursor (seekFrameImpl (MultiTrajectory trajs 2 3) i) =
             Inr (if i < 3 then (0, 2 + (i - 0) * 3)
                  else if i < 4 then (1, 2 + (i - 3) * 3)
                  else (2, 2 + (i - 4) * 3)))
       \<and> (\<forall>i<10. \<forall>k<3.
             (base (MultiTrajectory trajs 2 3) k \<le> i
                \<and> i < base (MultiTrajectory trajs 2 3) k + nframes (MultiTrajectory trajs 2 3) k)
             = (map_sum id cursor (seekFrameImpl (MultiTrajectory trajs 2 3) i)
                  = Inr (k, 2 + (i - base (MultiTrajectory trajs 2 3) k) * 3)))"
proof -
  from assms obtain a b c where t: "trajs = [a, b, c]"
    and n: "traj_nframes a = 10" "traj_nframes b = 5" "traj_nframes c = 20"
    by (rule three_sources)
  define S where "S = \<lparr>mt_trajectories = [a, b, c], mt_nframes = 10, mt_skip = 2, mt_stride = 3,
      mt_curtraj = 0, mt_curframe = 0 :: nat\<rparr>"
  have S: "MultiTrajectory trajs 2 3 = S"
    unfolding t S_def using n by (rule mt_three)
  have loc: "frameIndexToLocation S i =
       (if i < 3 then (0, 2 + (i - 0) * 3) else if i < 4 then (1, 2 + (i - 3) * 3) else (2, 2 + (i - 4) * 3))"
    if "i < 10" for i
    unfolding S_def using n that by (rule loc_three)
  have seek: "map_sum id cursor (seekFrameImpl S i) = Inr (frameIndexToLocation S i)" if "i < 10" for i
    using that by (simp add: seekFrameImpl_def Let_def cursor_def S_def)
  have fail: "(seekFrameImpl S i = Inl (FileReadError ''Cannot seek past end of MultiTraj'')) = (10 \<le> i)" for i
    by (simp add: seekFrameImpl_def Let_def S_def)
  have counts: "map (nframes S) [0, 1, 2] = [3, 1, 6]"
    using n by (simp add: nframes_def S_def Let_def)
  have own: "(base S k \<le> i \<and> i < base S k + nframes S k)
         = (map_sum id cursor (seekFrameImpl S i) = Inr (k, 2 + (i - base S k) * 3))"
    if "i < 10" "k < 3" for i k
    using n that S_def by (rule owner_three)
  have main: "map (nframes S) [0, 1, 2] = [3, 1, 6]
       \<and> mt_nframes S = 10
       \<and> map_sum id cursor (seekFrameImpl S 0) = Inr (0, 2)
       \<and> map_sum id cursor (seekFrameImpl S 3) = Inr (1, 2)
       \<and> map_sum id cursor (seekFrameImpl S 4) = Inr (2, 2)
       \<and> map_sum id cursor (seekFrameImpl S 9) = Inr (2, 17)
       \<and> seekFrameImpl S 10 = Inl (FileReadError ''Cannot seek past end of MultiTraj'')
       \<and> (\<forall>i. (seekFrameImpl S i
                 = Inl (FileReadError ''Cannot seek past end of MultiTraj'')) = (10 \<le> i))
       \<and> (\<forall>i<10. map_sum id cursor (seekFrameImpl S i) =
             Inr (if i < 3 then (0, 2 + (i - 0) * 3)
                  else if i < 4 then (1, 2 + (i - 3) * 3)
                  else (2, 2 + (i - 4) * 3)))"
    using counts fail seek loc by (simp add: S_def)
  show ?thesis
    unfolding S using main own by blast
qed


theorem multi_source_indexing_witness:
  "map (nframes ex_mt) [0, 1, 2] = [3, 1, 6]
   \<and> mt_nframes ex_mt = 10
   \<and> map_sum id cursor (seekFrameImpl ex_mt 9) = Inr (2, 17)
   \<and> map_sum id cursor (seekFrameImpl ex_mt 3) = Inr (1, 2)
   \<and> seekFrameImpl ex_mt 10 = Inl (FileReadError ''Cannot seek past end of MultiTraj'')"
proof -
  have h: "map traj_nframes [traj_of [0..<10], traj_of [0..<5], traj_of [0..<20 :: nat]] = [10, 5, 20]"
    by (simp add: traj_nframes_def traj_of_def)
  from multi_source_indexing [OF h] show ?thesis
    by (simp add: ex_mt_def)
qed

text \<open>
  C4. After \<open>rewind\<close>, if the stream is not at end, the cursor is on the first source
  that has more than \<open>skip\<close> frames, at native offset \<open>skip\<close>; that source has
  materialised the frame at this offset, and \<open>updateGroupCoords\<close> delivers its data with
  no advance or \<open>parseFrame\<close> in between.
\<close>

theorem rewind_primes_frame:
  assumes "\<not> eof (rewindImpl s)"
  shows "mt_curtraj (rewindImpl s) < length (mt_trajectories s)
       \<and> traj_nframes (mt_trajectories s ! mt_curtraj (rewindImpl s)) > mt_skip s
       \<and> (\<forall>j < mt_curtraj (rewindImpl s). traj_nframes (mt_trajectories s ! j) \<le> mt_skip s)
       \<and> mt_curframe (rewindImpl s) = mt_skip s
       \<and> loaded (mt_trajectories (rewindImpl s) ! mt_curtraj (rewindImpl s))
            = Some (frames (mt_trajectories s ! mt_curtraj (rewindImpl s)) ! mt_skip s)
       \<and> updateGroupCoordsImpl (rewindImpl s) g
            = frames (mt_trajectories s ! mt_curtraj (rewindImpl s)) ! mt_skip s"
proof -
  define s3 where "s3 = s\<lparr>mt_trajectories := map traj_rewind (mt_trajectories s), mt_curtraj := 0, mt_curframe := mt_skip s\<rparr>"
  define s4 where "s4 = findNextUsableTraj s3"
  define c where "c = mt_curtraj s4"
  have s4f: "mt_trajectories s4 = map traj_rewind (mt_trajectories s)" "mt_curframe s4 = mt_skip s"
    using fnut_fields[of s3] by (simp_all add: s4_def s3_def)
  have cc: "mt_curtraj (rewindImpl s) = c"
    using rewindImpl_cursor[of s] by (simp add: c_def s4_def s3_def)
  have lt: "c < length (mt_trajectories s)"
    using assms rewindImpl_cursor[of s] by (simp add: eof_def cc)
  have us: "native s c > mt_skip s" and first: "\<forall>j < c. native s j \<le> mt_skip s"
    using rewindImpl_first_usable[of s] lt by (simp_all add: cc)
  have ne: "\<not> eof s4" using lt by (simp add: eof_def s4f c_def)
  have r: "rewindImpl s = s4\<lparr>mt_trajectories := (mt_trajectories s4)
                  [c := snd (traj_readFrame (mt_skip s) (mt_trajectories s4 ! c))]\<rparr>"
    using ne by (simp add: rewindImpl_def Let_def skip_def s3_def[symmetric] s4_def[symmetric] c_def s4f)
  have rf: "traj_readFrame (mt_skip s) (traj_rewind (mt_trajectories s ! c))
        = (True, (traj_rewind (mt_trajectories s ! c))\<lparr>tpos := mt_skip s + 1,
             loaded := Some (frames (mt_trajectories s ! c) ! mt_skip s)\<rparr>)"
    using lt us by (simp add: s4f traj_readFrame_def native_def traj_nframes_def traj_rewind_def)
  have ld: "loaded (mt_trajectories (rewindImpl s) ! c) = Some (frames (mt_trajectories s ! c) ! mt_skip s)"
    using lt by (simp add: r rf s4f)
  have ne': "\<not> eof (rewindImpl s)" by (rule assms)
  have "updateGroupCoordsImpl (rewindImpl s) g = frames (mt_trajectories s ! c) ! mt_skip s"
    using ne' ld by (simp add: updateGroupCoordsImpl_def traj_updateGroupCoords_def cc)
  with lt us first ld rewindImpl_cursor[of s] show ?thesis
    by (simp add: cc native_def)
qed


theorem rewind_primes_frame_witness:
  "\<not> eof (rewindImpl ex_gap)
   \<and> mt_curtraj (rewindImpl ex_gap) = 1
   \<and> mt_curframe (rewindImpl ex_gap) = 2
   \<and> updateGroupCoordsImpl (rewindImpl ex_gap) 0 = 12"
proof -
  have h: "\<not> eof (rewindImpl ex_gap)"
    by (simp add: ex_gap_eq mt_eval)
  have c: "mt_curtraj (rewindImpl ex_gap) = 1"
    by (simp add: ex_gap_eq mt_eval)
  from rewind_primes_frame [OF h, of 0] h c show ?thesis
    by (simp add: ex_gap_eq traj_of_def)
qed

text \<open>
  C5, within the range of \<open>uint\<close>. If the stride is at least 1, no source's native frame
  count plus the stride exceeds \<open>2^32\<close>, the usable counts sum to less than \<open>2^32\<close>
  and \<open>_nframes\<close> holds that sum (as it does in a stream the constructor built, by
  \<open>MultiTrajectory_total\<close>), then for every \<open>k\<close> below the total, \<open>rewind\<close>
  followed by \<open>k\<close> advances leaves the cursor where \<open>seek(k)\<close> puts it.
\<close>

theorem sequential_matches_seek:
  assumes "1 \<le> mt_stride s"
      and "\<forall>t \<in> set (mt_trajectories s). traj_nframes t + mt_stride s \<le> uint_max"
      and "sum_list (map (nframes s) [0..<length (mt_trajectories s)]) < uint_max"
      and "mt_nframes s = sum_list (map (nframes s) [0..<length (mt_trajectories s)])"
      and "k < mt_nframes s"
  shows "\<exists>s'. seekFrameImpl s k = Inr s'
            \<and> cursor ((seekNextFrameImpl ^^ k) (rewindImpl s)) = cursor s'"
proof -
  have r: "in_range s"
    using assms(1-3) by (simp add: in_range_def natives_def base_def)
  have k: "k < base s (length (mt_trajectories s))"
    using assms(4,5) by (simp add: base_def)
  define t where "t = (seekNextFrameImpl ^^ k) (rewindImpl s)"
  have "same_sources s t" "at_index t k"
    using iterate_at_index[OF r k] by (simp_all add: t_def)
  then have c: "cursor t = frameIndexToLocation s k"
    using at_index_location[OF r] by simp
  have "seekFrameImpl s k =
          Inr (s\<lparr>mt_curtraj := fst (frameIndexToLocation s k),
                 mt_curframe := snd (frameIndexToLocation s k)\<rparr>)"
    using assms(5) by (simp add: seekFrameImpl_def Let_def)
  then show ?thesis
    unfolding t_def[symmetric] using c by (simp add: cursor_def)
qed

theorem sequential_matches_seek_witness:
  "cursor ((seekNextFrameImpl ^^ 4) (rewindImpl ex_mt)) = (2, 2)
   \<and> map_sum id cursor (seekFrameImpl ex_mt 4) = Inr (2, 2)"
proof -
  have h1: "1 \<le> mt_stride ex_mt" by (simp add: ex_mt_eq)
  have h2: "\<forall>t \<in> set (mt_trajectories ex_mt). traj_nframes t + mt_stride ex_mt \<le> uint_max"
    by (simp add: ex_mt_eq traj_nframes_def traj_of_def uint_max_def)
  have h0: "sum_list (map (nframes ex_mt) [0..<length (mt_trajectories ex_mt)]) = 10"
    by (simp add: ex_mt_eq nframes_def traj_nframes_def traj_of_def upt_rec Let_def)
  have h3: "sum_list (map (nframes ex_mt) [0..<length (mt_trajectories ex_mt)]) < uint_max"
    by (simp add: h0 uint_max_def)
  have h4: "mt_nframes ex_mt = sum_list (map (nframes ex_mt) [0..<length (mt_trajectories ex_mt)])"
    by (simp add: h0) (simp add: ex_mt_eq)
  have h5: "4 < mt_nframes ex_mt" by (simp add: ex_mt_eq)
  have s: "map_sum id cursor (seekFrameImpl ex_mt 4) = Inr (2, 2)"
    by (simp add: ex_mt_eq cursor_def seekFrameImpl_def
        frameIndexToLocation_def frameIndexToLocation_loop.simps
        Let_def nframes_def traj_nframes_def traj_of_def
        uadd_def usub_def umul_def uint_max_def)
  from sequential_matches_seek[OF h1 h2 h3 h4 h5] s show ?thesis by auto
qed


text \<open>
  C5 without the range condition fails. With a stride of \<open>2^32 - 1\<close> and two sources
  of ten frames, \<open>_curframe += _stride\<close> wraps from 2 to 1, so one advance after
  \<open>rewind\<close> stays in source 0 at offset 1, while \<open>seek(1)\<close> is source 1 at offset 2.
\<close>

theorem sequential_matches_seek_counterexample:
  "1 < mt_nframes ex_wrap
   \<and> cursor ((seekNextFrameImpl ^^ 1) (rewindImpl ex_wrap)) = (0, 1)
   \<and> map_sum id cursor (seekFrameImpl ex_wrap 1) = Inr (1, 2)"
  by (simp add: ex_wrap_eq cursor_def rewindImpl_def seekNextFrameImpl_def seekFrameImpl_def
        frameIndexToLocation_def frameIndexToLocation_loop.simps findNextUsableTraj.simps
        Let_def skip_def eof_def nframes_def traj_nframes_def traj_of_def traj_readFrame_def
        traj_rewind_def uadd_def usub_def umul_def uint_max_def)


text \<open>
  C6. A source with no more than \<open>skip\<close> native frames has the usable count 0 and is
  never the current source: after \<open>rewind\<close> and after any number of advances the
  stream is at end or on a source with more than \<open>skip\<close> frames; \<open>rewind\<close> passes
  over every such source before the cursor, and an advance that leaves its source
  passes over every such source up to the next one that has more than \<open>skip\<close> frames,
  or to the end.
\<close>

theorem unusable_source_skipped:
  "(traj_nframes (mt_trajectories s ! k) \<le> mt_skip s \<longrightarrow> nframes s k = 0)
   \<and> usable_or_end ((seekNextFrameImpl ^^ n) (rewindImpl s))
   \<and> (\<forall>j < mt_curtraj (rewindImpl s). traj_nframes (mt_trajectories s ! j) \<le> mt_skip s)
   \<and> (\<not> eof s \<longrightarrow>
        mt_curtraj (seekNextFrameImpl s) = mt_curtraj s \<or>
        (mt_curtraj s < mt_curtraj (seekNextFrameImpl s) \<and>
         (\<forall>j. mt_curtraj s < j \<and> j < mt_curtraj (seekNextFrameImpl s) \<longrightarrow>
              traj_nframes (mt_trajectories s ! j) \<le> mt_skip s) \<and>
         usable_or_end (seekNextFrameImpl s)))"
proof (intro conjI impI)
  show "nframes s k = 0" if "traj_nframes (mt_trajectories s ! k) \<le> mt_skip s"
    using that by (simp add: nframes_def Let_def)
  show "usable_or_end ((seekNextFrameImpl ^^ n) (rewindImpl s))"
    by (rule iterate_usable_or_end)
  show "\<forall>j < mt_curtraj (rewindImpl s). traj_nframes (mt_trajectories s ! j) \<le> mt_skip s"
    using rewindImpl_first_usable[of s] by (simp add: native_def)
next
  assume ne: "\<not> eof s"
  from seekNext_steps_over[OF ne] seekNext_fields[of s]
  show "mt_curtraj (seekNextFrameImpl s) = mt_curtraj s \<or>
        (mt_curtraj s < mt_curtraj (seekNextFrameImpl s) \<and>
         (\<forall>j. mt_curtraj s < j \<and> j < mt_curtraj (seekNextFrameImpl s) \<longrightarrow>
              traj_nframes (mt_trajectories s ! j) \<le> mt_skip s) \<and>
         usable_or_end (seekNextFrameImpl s))"
    by (auto simp add: usable_or_end_def native_def eof_def)
qed


theorem unusable_source_skipped_witness:
  "traj_nframes (mt_trajectories ex_gap_at ! 0) \<le> mt_skip ex_gap_at
   \<and> nframes ex_gap_at 0 = 0
   \<and> mt_curtraj (rewindImpl ex_gap_at) = 1
   \<and> \<not> eof ex_gap_at
   \<and> mt_curtraj ex_gap_at = 1
   \<and> mt_curtraj (seekNextFrameImpl ex_gap_at) = 3
   \<and> usable_or_end (seekNextFrameImpl ex_gap_at)"
proof -
  have h1: "traj_nframes (mt_trajectories ex_gap_at ! 0) \<le> mt_skip ex_gap_at"
    by (simp add: ex_gap_at_def ex_gap_eq traj_nframes_def traj_of_def)
  have h2: "\<not> eof ex_gap_at"
    by (simp add: ex_gap_at_def ex_gap_eq eof_def)
  have c: "mt_curtraj (rewindImpl ex_gap_at) = 1" "mt_curtraj ex_gap_at = 1"
          "mt_curtraj (seekNextFrameImpl ex_gap_at) = 3"
    by (simp_all add: ex_gap_at_def ex_gap_eq mt_eval)
  from unusable_source_skipped [of ex_gap_at 0 0] h1 h2 c show ?thesis
    by simp
qed

text \<open>
  C7. At end, \<open>seekNextFrame\<close> changes nothing, \<open>updateGroupCoords\<close> leaves the group
  as it is, and \<open>parseFrame\<close> returns false and changes nothing.
\<close>

theorem at_end_noop:
  "eof s \<Longrightarrow> seekNextFrameImpl s = s \<and> updateGroupCoordsImpl s g = g \<and> parseFrame s = (False, s)"
  by (simp add: seekNextFrameImpl_def updateGroupCoordsImpl_def parseFrame_def)


theorem at_end_noop_witness:
  "eof ex_end
   \<and> seekNextFrameImpl ex_end = ex_end
   \<and> updateGroupCoordsImpl ex_end 7 = 7
   \<and> parseFrame ex_end = (False, ex_end)"
proof -
  have h: "eof ex_end" by (simp add: ex_end_def ex_mt_eq eof_def)
  from at_end_noop [OF h, of 7] h show ?thesis by simp
qed

section \<open>The writer: basic facts\<close>

lemma stream_write_sticky: "failed s \<Longrightarrow> failed (stream_write bs s)"
  by (simp add: stream_write_def)

lemma stream_write_at_end:
  assumes "at_end s" "\<not> failed (stream_write bs s)"
  shows "stream_write bs s = s\<lparr>content := content s @ bs, ppos := length (content s) + length bs\<rparr>"
    and "length (content s) + length bs \<le> cap s"
proof -
  have nf: "\<not> failed s" and p: "ppos s = length (content s)"
    using assms(1) by (simp_all add: at_end_def)
  from assms(2) nf have "\<not> length (take (cap s - ppos s) bs) < length bs"
    by (simp add: stream_write_def Let_def)
  then have le: "length bs \<le> cap s - ppos s" by simp
  then have tk: "take (cap s - length (content s)) bs = bs"
    and mn: "min (length bs) (cap s - length (content s)) = length bs"
    using p by simp_all
  show "stream_write bs s = s\<lparr>content := content s @ bs, ppos := length (content s) + length bs\<rparr>"
    using nf p by (intro iostream.equality) (simp_all add: stream_write_def Let_def tk mn)
  from assms(1) le p show "length (content s) + length bs \<le> cap s"
    by (auto simp add: at_end_def)
qed

lemma stream_write_at_end_at_end:
  assumes "at_end s" "\<not> failed (stream_write bs s)"
  shows "at_end (stream_write bs s)"
  using stream_write_at_end[OF assms] assms(1) by (simp add: at_end_def)

lemma put_scalar_stream:
  assumes "length v = sizeof_uint"
  shows "put_scalar v x = x\<lparr>stream := stream_write (if need_to_swab x then rev v else v) (stream x)\<rparr>"
proof -
  have "store v (replicate sizeof_uint 0) = v"
    using assms by (simp add: store_def)
  then show ?thesis
    using assms by (simp add: put_scalar_def xdr_write_Inr Let_def swab_def sizeof_uint_def)
qed

lemma put_block_stream:
  "put_block bs x =
     (let s1 = stream_write bs (stream x);
          s2 = (if \<not> failed s1 then stream_write (replicate (spec_padding (length bs)) 0) s1 else s1)
      in x\<lparr>stream := s2\<rparr>)"
  by (simp add: put_block_def xdr_write_block_eq Let_def)

lemma put_scalar_sticky: "failed (stream x) \<Longrightarrow> failed (stream (put_scalar v x))"
  by (auto simp add: put_scalar_def xdr_write_def Let_def stream_write_sticky)

lemma put_block_sticky: "failed (stream x) \<Longrightarrow> failed (stream (put_block bs x))"
  by (simp add: put_block_stream Let_def stream_write_sticky)

lemma grows_refl: "at_end (stream x) \<Longrightarrow> grows x x"
  by (simp add: grows_def)

lemma grows_trans:
  assumes "grows x y" "grows y z"
  shows "grows x z"
proof -
  let ?cx = "content (stream x)" and ?cy = "content (stream y)" and ?cz = "content (stream z)"
  have l: "length ?cx \<le> length ?cy" "length ?cy \<le> length ?cz"
    using assms by (simp_all add: grows_def)
  have "take (length ?cx) ?cz = take (length ?cx) (take (length ?cy) ?cz)"
    using l by (simp add: min_def)
  also have "\<dots> = take (length ?cx) ?cy" using assms(2) by (simp add: grows_def)
  also have "\<dots> = ?cx" using assms(1) by (simp add: grows_def)
  finally show ?thesis using assms l by (simp add: grows_def)
qed

lemma stream_write_grows:
  assumes "at_end (stream x)" "\<not> failed (stream_write bs (stream x))"
  shows "grows x (x\<lparr>stream := stream_write bs (stream x)\<rparr>)"
  using stream_write_at_end[OF assms] stream_write_at_end_at_end[OF assms]
  by (simp add: grows_def)

lemma put_scalar_grows:
  assumes "length v = sizeof_uint" "at_end (stream x)" "\<not> failed (stream (put_scalar v x))"
  shows "grows x (put_scalar v x)"
  using assms stream_write_grows[of x "if need_to_swab x then rev v else v"]
  by (simp add: put_scalar_stream)

lemma put_block_grows:
  assumes "at_end (stream x)" "\<not> failed (stream (put_block bs x))"
  shows "grows x (put_block bs x)"
proof -
  define s1 where "s1 = stream_write bs (stream x)"
  have f1: "\<not> failed s1"
    using assms(2) by (auto simp add: put_block_stream Let_def s1_def[symmetric] split: if_splits)
  define x1 where "x1 = x\<lparr>stream := s1\<rparr>"
  have g1: "grows x x1"
    unfolding x1_def s1_def using assms(1) f1[unfolded s1_def] by (rule stream_write_grows)
  have e: "put_block bs x = x1\<lparr>stream := stream_write (replicate (spec_padding (length bs)) 0) (stream x1)\<rparr>"
    using f1 by (simp add: put_block_stream Let_def s1_def[symmetric] x1_def)
  have a1: "at_end (stream x1)" using g1 by (simp add: grows_def)
  have f2: "\<not> failed (stream_write (replicate (spec_padding (length bs)) 0) (stream x1))"
    using assms(2) by (simp add: e)
  have "grows x1 (put_block bs x)"
    unfolding e using a1 f2 by (rule stream_write_grows)
  with g1 show ?thesis by (rule grows_trans)
qed

lemma wire_int:
  assumes "need_to_swab x = need_to_swab (XDR host s)"
  shows "(if need_to_swab x then rev (int_scalar host n) else int_scalar host n) = be32 n"
proof (cases host)
  case Little
  have "need_to_swab (XDR Little s)"
    by (simp add: XDR_def int_bytes_def le_bytes_def)
  with assms Little show ?thesis
    by (simp add: int_scalar_def int_bytes_def be32_def)
next
  case Big
  have "\<not> need_to_swab (XDR Big s)"
    by (simp add: XDR_def int_bytes_def le_bytes_def)
  with assms Big show ?thesis
    by (simp add: int_scalar_def int_bytes_def be32_def)
qed

lemma length_int_scalar: "length (int_scalar host n) = sizeof_uint"
  by (cases host) (simp_all add: int_scalar_def int_bytes_def le_bytes_def sizeof_uint_def)

lemma length_be32: "length (be32 n) = sizeof_uint"
  by (simp add: be32_def le_bytes_def sizeof_uint_def)


lemma grows_nth:
  assumes "grows x x'" "i < length (content (stream x))"
  shows "content (stream x') ! i = content (stream x) ! i"
proof -
  have "content (stream x) ! i = take (length (content (stream x))) (content (stream x')) ! i"
    using assms(1) by (simp add: grows_def)
  also have "\<dots> = content (stream x') ! i" using assms(2) by simp
  finally show ?thesis by simp
qed

lemma grows_window:
  assumes "grows x x'" "j + k \<le> length (content (stream x))"
  shows "take k (drop j (content (stream x'))) = take k (drop j (content (stream x)))"
proof -
  let ?c = "content (stream x)" and ?c' = "content (stream x')"
  have "take k (drop j ?c) = take k (drop j (take (length ?c) ?c'))"
    using assms(1) by (simp add: grows_def)
  also have "\<dots> = take k (take (length ?c - j) (drop j ?c'))"
    by (simp add: drop_take)
  also have "\<dots> = take k (drop j ?c')"
    using assms(2) by (simp add: min_def)
  finally show ?thesis by simp
qed

lemma put_frame_sticky: "failed (stream x) \<Longrightarrow> failed (stream (put_frame hb g x))"
  by (auto simp add: put_frame_def Let_def put_block_sticky split: option.splits)

lemma put_frame_grows:
  assumes a: "at_end (stream x)" and nf: "\<not> failed (stream (put_frame hb g x))"
  shows "grows x (put_frame hb g x)"
proof -
  define x1 where "x1 = put_block (axis_block (\<lambda>(x, y, z). x) g) x"
  define x2 where "x2 = put_block (axis_block (\<lambda>(x, y, z). y) g) x1"
  define x3 where "x3 = put_block (axis_block (\<lambda>(x, y, z). z) g) x2"
  define x4 where "x4 = (if hb then (case ag_box g of None \<Rightarrow> x3
                          | Some (a, b, c) \<Rightarrow> put_block (a @ b @ c) x3) else x3)"
  have e: "put_frame hb g x = x4"
    unfolding put_frame_def Let_def x4_def x3_def x2_def x1_def by (rule refl)
  have f4: "\<not> failed (stream x4)" using nf by (simp add: e)
  have f3: "\<not> failed (stream x3)"
    using f4 put_block_sticky[of x3] by (auto simp add: x4_def split: if_splits option.splits)
  have f2: "\<not> failed (stream x2)" using f3 put_block_sticky[of x2] by (auto simp add: x3_def)
  have f1: "\<not> failed (stream x1)" using f2 put_block_sticky[of x1] by (auto simp add: x2_def)
  have g1: "grows x x1" unfolding x1_def using a f1[unfolded x1_def] by (rule put_block_grows)
  then have a1: "at_end (stream x1)" by (simp add: grows_def)
  have g2: "grows x1 x2" unfolding x2_def using a1 f2[unfolded x2_def] by (rule put_block_grows)
  then have a2: "at_end (stream x2)" by (simp add: grows_def)
  have g3: "grows x2 x3" unfolding x3_def using a2 f3[unfolded x3_def] by (rule put_block_grows)
  then have a3: "at_end (stream x3)" by (simp add: grows_def)
  have g03: "grows x x3" using grows_trans[OF grows_trans[OF g1 g2] g3] .
  have g34: "grows x3 x4"
  proof (cases "hb \<and> ag_box g \<noteq> None")
    case True
    then obtain a b c where bx: "ag_box g = Some (a, b, c)" by (cases "ag_box g") auto
    with True have e4: "x4 = put_block (a @ b @ c) x3" by (simp add: x4_def)
    show ?thesis unfolding e4 using a3 f4[unfolded e4] by (rule put_block_grows)
  next
    case False
    then have "x4 = x3" by (cases "ag_box g") (auto simp add: x4_def)
    with a3 show ?thesis by (simp add: grows_refl)
  qed
  show ?thesis unfolding e using g03 g34 by (rule grows_trans)
qed

lemma seekp_failed: "failed s \<Longrightarrow> seekp p s = s"
  by (simp add: seekp_def)

lemma patchHeader_sticky:
  "failed (stream (dw_ofs w)) \<Longrightarrow> failed (stream (dw_ofs (patchHeader host w)))"
proof -
  assume f: "failed (stream (dw_ofs w))"
  define x1 where "x1 = (dw_ofs w)\<lparr>stream := seekp nsteps_offset (stream (dw_ofs w))\<rparr>"
  define x2 where "x2 = put_scalar (int_scalar host (dw_nsteps w)) x1"
  have "failed (stream x1)" using f by (simp add: x1_def seekp_failed)
  then have "failed (stream x2)" unfolding x2_def by (rule put_scalar_sticky)
  then show ?thesis
    by (simp add: patchHeader_def Let_def x1_def[symmetric] x2_def[symmetric] seekp_failed)
qed

lemma patchHeader_stream:
  assumes a: "at_end (stream (dw_ofs w))"
      and l: "nsteps_offset + sizeof_uint \<le> length (content (stream (dw_ofs w)))"
      and sw: "need_to_swab (dw_ofs w) = need_to_swab (XDR host (stream (dw_ofs w)))"
  shows "patchHeader host w =
           w\<lparr>dw_ofs := (dw_ofs w)\<lparr>stream := (stream (dw_ofs w))
              \<lparr>content := take nsteps_offset (content (stream (dw_ofs w))) @ be32 (dw_nsteps w)
                   @ drop (nsteps_offset + sizeof_uint) (content (stream (dw_ofs w)))\<rparr>\<rparr>\<rparr>"
proof -
  define x where "x = dw_ofs w"
  define s where "s = stream x"
  define c where "c = content s"
  have nf: "\<not> failed s" and p: "ppos s = length c" and cp: "length c \<le> cap s"
    using a by (simp_all add: at_end_def s_def x_def c_def)
  have l': "nsteps_offset + sizeof_uint \<le> length c" using l by (simp add: c_def s_def x_def)
  define x1 where "x1 = x\<lparr>stream := seekp nsteps_offset s\<rparr>"
  have s1: "stream x1 = s\<lparr>ppos := nsteps_offset\<rparr>"
    using nf l' by (simp add: x1_def seekp_def c_def)
  have sw1: "need_to_swab x1 = need_to_swab (XDR host s)"
    using sw by (simp add: x1_def x_def s_def XDR_def)
  define x2 where "x2 = put_scalar (int_scalar host (dw_nsteps w)) x1"
  have w2: "stream x2 = stream_write (be32 (dw_nsteps w)) (s\<lparr>ppos := nsteps_offset\<rparr>)"
    using wire_int[OF sw1, of "dw_nsteps w"]
    by (simp add: x2_def put_scalar_stream length_int_scalar s1)
  have s2: "stream x2 = s\<lparr>content := take nsteps_offset c @ be32 (dw_nsteps w)
                              @ drop (nsteps_offset + sizeof_uint) c,
                          ppos := nsteps_offset + sizeof_uint\<rparr>"
    unfolding w2 using nf l' cp
    by (intro iostream.equality)
       (simp_all add: stream_write_def Let_def length_be32 c_def[symmetric])
  have n2: "need_to_swab x2 = need_to_swab x"
    by (simp add: x2_def put_scalar_stream length_int_scalar x1_def)
  have len2: "length (content (stream x2)) = length c"
    using l' by (simp add: s2 length_be32)
  have s3: "seekp (tellp s) (stream x2) = s\<lparr>content := take nsteps_offset c @ be32 (dw_nsteps w)
                              @ drop (nsteps_offset + sizeof_uint) c\<rparr>"
    using nf p len2 by (intro iostream.equality) (simp_all add: seekp_def tellp_def s2)
  have x3: "x2\<lparr>stream := seekp (tellp s) (stream x2)\<rparr> =
            x\<lparr>stream := s\<lparr>content := take nsteps_offset c @ be32 (dw_nsteps w)
                              @ drop (nsteps_offset + sizeof_uint) c\<rparr>\<rparr>"
    using n2 by (intro xdr.equality) (simp_all add: s3)
  show ?thesis
    unfolding patchHeader_def Let_def
    using x3 by (simp add: x_def[symmetric] s_def[symmetric] x1_def[symmetric] x2_def[symmetric]
         c_def[symmetric])
qed


lemma writeFrame_with_header:
  assumes "dw_natoms w \<noteq> 0"
  shows "writeFrame host w g =
     (if int (length (ag_coords g)) \<noteq> dw_natoms w
      then Inl (LogicError ''Frame has wrong number of atoms'')
      else if dw_has_box w \<noteq> (ag_box g \<noteq> None)
      then Inl (LogicError ''Frame has wrong periodic box information'')
      else Inr (if dw_current w + 1 > dw_nsteps w
                then patchHeader host
                       (w\<lparr>dw_ofs := put_frame (dw_has_box w) g (dw_ofs w),
                          dw_current := dw_current w + 1, dw_nsteps := dw_current w + 1\<rparr>)
                else w\<lparr>dw_ofs := put_frame (dw_has_box w) g (dw_ofs w),
                       dw_current := dw_current w + 1\<rparr>))"
  using assms by (simp add: writeFrame_def Let_def del: not_None_eq)

lemma writeFrame_step:
  assumes ok: "writer_ok host w"
      and wf: "writeFrame host w g = Inr w'"
      and nf: "\<not> failed (stream (dw_ofs w'))"
  shows "dw_current w' = dw_current w + 1
       \<and> dw_nsteps w' = max (dw_nsteps w) (dw_current w')
       \<and> header_nsteps (stream (dw_ofs w')) = be32 (dw_nsteps w')
       \<and> ppos (stream (dw_ofs w')) = ppos (stream (put_frame (dw_has_box w) g (dw_ofs w)))
       \<and> length (content (stream (dw_ofs w))) \<le> length (content (stream (dw_ofs w')))
       \<and> take nsteps_offset (content (stream (dw_ofs w')))
            = take nsteps_offset (content (stream (dw_ofs w)))
       \<and> (\<forall>i. nsteps_offset + sizeof_uint \<le> i \<and> i < length (content (stream (dw_ofs w)))
              \<longrightarrow> content (stream (dw_ofs w')) ! i = content (stream (dw_ofs w)) ! i)
       \<and> writer_ok host w'"
proof -
  define x where "x = dw_ofs w"
  define x4 where "x4 = put_frame (dw_has_box w) g x"
  define c where "c = content (stream x)"
  define c4 where "c4 = content (stream x4)"
  have na: "dw_natoms w \<noteq> 0" and a: "at_end (stream x)"
    and l: "nsteps_offset + sizeof_uint \<le> length c"
    and h: "header_nsteps (stream x) = be32 (dw_nsteps w)"
    and sw: "need_to_swab x = need_to_swab (XDR host (stream x))"
    and cn: "dw_current w \<le> dw_nsteps w"
    using ok by (simp_all add: writer_ok_def x_def c_def)
  note wfe = wf[unfolded writeFrame_with_header[OF na], folded x_def, folded x4_def]
  have pass: "int (length (ag_coords g)) = dw_natoms w" "dw_has_box w = (ag_box g \<noteq> None)"
    using wfe by (auto split: if_splits)
  have f4: "\<not> failed (stream x4)"
  proof (cases "dw_current w + 1 > dw_nsteps w")
    case True
    with wfe pass have "w' = patchHeader host (w\<lparr>dw_ofs := x4,
                          dw_current := dw_current w + 1, dw_nsteps := dw_current w + 1\<rparr>)"
      by simp
    with nf patchHeader_sticky[of "w\<lparr>dw_ofs := x4,
                          dw_current := dw_current w + 1, dw_nsteps := dw_current w + 1\<rparr>" host]
    show ?thesis by auto
  next
    case False
    with wfe pass have "w' = w\<lparr>dw_ofs := x4, dw_current := dw_current w + 1\<rparr>" by simp
    with nf show ?thesis by simp
  qed
  have g: "grows x x4"
    unfolding x4_def using a f4[unfolded x4_def] by (rule put_frame_grows)
  have a4: "at_end (stream x4)" and n4: "need_to_swab x4 = need_to_swab x"
    and l4: "length c \<le> length c4"
    using g by (simp_all add: grows_def c_def c4_def)
  have pre: "take nsteps_offset c4 = take nsteps_offset c"
    using grows_window[OF g, of 0 nsteps_offset] l by (simp add: c_def c4_def)
  have hd4: "header_nsteps (stream x4) = be32 (dw_nsteps w)"
    using grows_window[OF g, of nsteps_offset sizeof_uint] l h
    by (simp add: header_nsteps_def c_def)
  have nth4: "c4 ! i = c ! i" if "i < length c" for i
    using grows_nth[OF g, of i] that by (simp add: c_def c4_def)
  have sw4: "need_to_swab x4 = need_to_swab (XDR host (stream x4))"
    using sw n4 by (simp add: XDR_def)
  show ?thesis
  proof (cases "dw_current w + 1 > dw_nsteps w")
    case False
    with wfe pass have w': "w' = w\<lparr>dw_ofs := x4, dw_current := dw_current w + 1\<rparr>" by simp
    have "writer_ok host w'"
      using a4 sw4 l l4 hd4 na False by (simp add: writer_ok_def w' c_def c4_def)
    then show ?thesis
      using False hd4 pre nth4 l4
      by (simp add: w' x4_def x_def c_def c4_def max_def)
  next
    case True
    define w2 where "w2 = w\<lparr>dw_ofs := x4,
                          dw_current := dw_current w + 1, dw_nsteps := dw_current w + 1\<rparr>"
    from True wfe pass have w': "w' = patchHeader host w2" by (simp add: w2_def)
    have p: "patchHeader host w2 =
           w2\<lparr>dw_ofs := x4\<lparr>stream := (stream x4)
              \<lparr>content := take nsteps_offset c4 @ be32 (dw_current w + 1)
                   @ drop (nsteps_offset + sizeof_uint) c4\<rparr>\<rparr>\<rparr>"
      using patchHeader_stream[of w2 host] a4 l l4 sw4
      by (simp add: w2_def c4_def XDR_def)
    define c' where "c' = take nsteps_offset c4 @ be32 (dw_current w + 1)
                   @ drop (nsteps_offset + sizeof_uint) c4"
    have l44: "nsteps_offset + sizeof_uint \<le> length c4" using l l4 by simp
    have len': "length c' = length c4"
      using l44 by (simp add: c'_def length_be32)
    have st': "stream (dw_ofs w') = (stream x4)\<lparr>content := c'\<rparr>"
      unfolding w' p by (simp add: w2_def c'_def)
    have hd': "header_nsteps (stream (dw_ofs w')) = be32 (dw_current w + 1)"
      using l44 by (simp add: st' header_nsteps_def c'_def length_be32)
    have "take nsteps_offset c' = take nsteps_offset c4"
      using l44 by (simp add: c'_def)
    with pre have pre': "take nsteps_offset c' = take nsteps_offset c" by simp
    have nth': "c' ! i = c ! i" if "nsteps_offset + sizeof_uint \<le> i" "i < length c" for i
    proof -
      define pfx where "pfx = take nsteps_offset c4 @ be32 (dw_current w + 1)"
      have lp: "length pfx = nsteps_offset + sizeof_uint"
        using l44 by (simp add: pfx_def length_be32)
      have "c' = pfx @ drop (nsteps_offset + sizeof_uint) c4"
        by (simp add: c'_def pfx_def)
      then have "c' ! i = drop (nsteps_offset + sizeof_uint) c4 ! (i - (nsteps_offset + sizeof_uint))"
        using that(1) lp by (simp add: nth_append)
      also have "\<dots> = c4 ! i" using that l44 by simp
      also have "\<dots> = c ! i" using that by (simp add: nth4)
      finally show ?thesis .
    qed
    have fields: "dw_current w' = dw_current w + 1" "dw_nsteps w' = dw_current w + 1"
                 "dw_natoms w' = dw_natoms w"
      unfolding w' p by (simp_all add: w2_def)
    have a': "at_end (stream (dw_ofs w'))"
      using a4 len' by (simp add: st' at_end_def c4_def)
    have sw': "need_to_swab (dw_ofs w') = need_to_swab (XDR host (stream (dw_ofs w')))"
      using sw4 unfolding w' p by (simp add: w2_def XDR_def)
    have ok': "writer_ok host w'"
      using a' sw' hd' fields na l44 len'
      by (simp add: writer_ok_def) (simp add: st')
    have pp: "ppos (stream (dw_ofs w')) = ppos (stream x4)" by (simp add: st')
    show ?thesis
      using fields True hd' pp ok' pre' nth' l4 len'
      by (simp add: max_def x4_def[symmetric] x_def[symmetric] c_def[symmetric])
         (simp add: st' c4_def[symmetric])
  qed
qed


lemma fold_put_block_sticky:
  "failed (stream x) \<Longrightarrow> failed (stream (fold (\<lambda>t x. put_block (title_bytes t) x) ts x))"
  by (induction ts arbitrary: x) (simp_all add: put_block_sticky)

lemma writeHeader_sticky:
  "failed (stream (dw_ofs w)) \<Longrightarrow> failed (stream (dw_ofs (writeHeader host w)))"
  by (simp add: writeHeader_def Let_def fold_put_block_sticky put_scalar_sticky)

lemma writeFrame_sticky:
  assumes f: "failed (stream (dw_ofs w))" and wf: "writeFrame host w g = Inr w'"
  shows "failed (stream (dw_ofs w'))"
proof -
  define w1 where "w1 = (if dw_natoms w = 0
                then writeHeader host
                       (setHeader (int (length (ag_coords g))) (dw_nsteps w) (dw_timestep w)
                          (ag_box g \<noteq> None) w)
                else w)"
  have f1: "failed (stream (dw_ofs w1))"
    using f writeHeader_sticky[of "setHeader (int (length (ag_coords g))) (dw_nsteps w)
         (dw_timestep w) (ag_box g \<noteq> None) w" host]
    by (simp add: w1_def setHeader_def)
  define w2 where "w2 = w1\<lparr>dw_ofs := put_frame (dw_has_box w1) g (dw_ofs w1),
                          dw_current := dw_current w1 + 1\<rparr>"
  have f2: "failed (stream (dw_ofs w2))"
    using f1 by (simp add: w2_def put_frame_sticky)
  have "w' = (if dw_current w2 > dw_nsteps w2
                      then patchHeader host (w2\<lparr>dw_nsteps := dw_current w2\<rparr>)
                      else w2)"
    using wf unfolding writeFrame_def Let_def w1_def[symmetric] w2_def[symmetric]
    by (auto split: if_splits)
  then show ?thesis
    using f2 patchHeader_sticky[of "w2\<lparr>dw_nsteps := dw_current w2\<rparr>" host]
    by (auto split: if_splits)
qed

lemma writeFrames_sticky:
  "failed (stream (dw_ofs w)) \<Longrightarrow> writeFrames host w gs = Inr w' \<Longrightarrow> failed (stream (dw_ofs w'))"
proof (induction gs arbitrary: w)
  case Nil
  then show ?case by simp
next
  case (Cons g gs)
  from Cons.prems(2) obtain w1 where w1: "writeFrame host w g = Inr w1"
    and r: "writeFrames host w1 gs = Inr w'"
    by (auto split: sum.splits)
  from writeFrame_sticky[OF Cons.prems(1) w1] have "failed (stream (dw_ofs w1))" .
  from Cons.IH[OF this r] show ?case .
qed

lemma writeFrames_extend:
  assumes "writer_ok host w"
      and "writeFrames host w gs = Inr w'"
      and "\<not> failed (stream (dw_ofs w'))"
  shows "framesWritten w' = framesWritten w + int (length gs)
       \<and> (dw_nsteps w < framesWritten w' \<longrightarrow>
             header_nsteps (stream (dw_ofs w')) = be32 (framesWritten w'))
       \<and> (framesWritten w' \<le> dw_nsteps w \<longrightarrow>
             header_nsteps (stream (dw_ofs w')) = be32 (dw_nsteps w))
       \<and> ppos (stream (dw_ofs w')) = length (content (stream (dw_ofs w')))
       \<and> length (content (stream (dw_ofs w))) \<le> length (content (stream (dw_ofs w')))
       \<and> take nsteps_offset (content (stream (dw_ofs w')))
            = take nsteps_offset (content (stream (dw_ofs w)))
       \<and> (\<forall>i. nsteps_offset + sizeof_uint \<le> i \<and> i < length (content (stream (dw_ofs w)))
              \<longrightarrow> content (stream (dw_ofs w')) ! i = content (stream (dw_ofs w)) ! i)
       \<and> writer_ok host w'"
  using assms
proof (induction gs arbitrary: w)
  case Nil
  then show ?case
    by (auto simp add: framesWritten_def writer_ok_def at_end_def)
next
  case (Cons g gs)
  from Cons.prems(2) obtain w1 where w1: "writeFrame host w g = Inr w1"
    and r: "writeFrames host w1 gs = Inr w'"
    by (auto split: sum.splits)
  have nf1: "\<not> failed (stream (dw_ofs w1))"
    using writeFrames_sticky[OF _ r] Cons.prems(3) by blast
  note s = writeFrame_step[OF Cons.prems(1) w1 nf1]
  from s have ok1: "writer_ok host w1" by simp
  note ih = Cons.IH[OF ok1 r Cons.prems(3)]
  have cur: "framesWritten w' = framesWritten w + int (length (g # gs))"
    using s ih by (simp add: framesWritten_def)
  have n1: "dw_nsteps w1 = max (dw_nsteps w) (dw_current w + 1)" using s by simp
  have c0: "dw_current w \<le> dw_nsteps w" using Cons.prems(1) by (simp add: writer_ok_def)
  have fw: "framesWritten w' = dw_current w + 1 + int (length gs)"
    using cur by (simp add: framesWritten_def)
  have ih1: "dw_nsteps w1 < framesWritten w' \<Longrightarrow>
             header_nsteps (stream (dw_ofs w')) = be32 (framesWritten w')"
    and ih2: "framesWritten w' \<le> dw_nsteps w1 \<Longrightarrow>
             header_nsteps (stream (dw_ofs w')) = be32 (dw_nsteps w1)"
    using ih by simp_all
  have h1: "dw_nsteps w < framesWritten w' \<longrightarrow>
             header_nsteps (stream (dw_ofs w')) = be32 (framesWritten w')"
  proof
    assume lt: "dw_nsteps w < framesWritten w'"
    show "header_nsteps (stream (dw_ofs w')) = be32 (framesWritten w')"
    proof (cases "dw_nsteps w1 < framesWritten w'")
      case True
      then show ?thesis by (rule ih1)
    next
      case False
      then have le: "framesWritten w' \<le> dw_nsteps w1" by simp
      with lt n1 fw have "dw_nsteps w1 = framesWritten w'" by (simp add: max_def split: if_splits)
      with ih2[OF le] show ?thesis by simp
    qed
  qed
  have h2: "framesWritten w' \<le> dw_nsteps w \<longrightarrow>
             header_nsteps (stream (dw_ofs w')) = be32 (dw_nsteps w)"
  proof
    assume le: "framesWritten w' \<le> dw_nsteps w"
    with fw n1 have e: "dw_nsteps w1 = dw_nsteps w" by (simp add: max_def)
    with le ih2 show "header_nsteps (stream (dw_ofs w')) = be32 (dw_nsteps w)" by simp
  qed
  have len: "length (content (stream (dw_ofs w))) \<le> length (content (stream (dw_ofs w')))"
    using s ih by simp
  have pre: "take nsteps_offset (content (stream (dw_ofs w')))
            = take nsteps_offset (content (stream (dw_ofs w)))"
    using s ih by simp
  have nth: "content (stream (dw_ofs w')) ! i = content (stream (dw_ofs w)) ! i"
    if "nsteps_offset + sizeof_uint \<le> i" "i < length (content (stream (dw_ofs w)))" for i
  proof -
    have "i < length (content (stream (dw_ofs w1)))" using that s by simp
    with ih that have "content (stream (dw_ofs w')) ! i = content (stream (dw_ofs w1)) ! i" by simp
    also have "\<dots> = content (stream (dw_ofs w)) ! i" using s that by simp
    finally show ?thesis .
  qed
  show ?case using cur h1 h2 len pre nth ih by simp
qed


lemma fold_put_block_grows:
  "at_end (stream x) \<Longrightarrow>
   \<not> failed (stream (fold (\<lambda>t x. put_block (title_bytes t) x) ts x)) \<Longrightarrow>
   grows x (fold (\<lambda>t x. put_block (title_bytes t) x) ts x)"
proof (induction ts arbitrary: x)
  case Nil
  then show ?case by (simp add: grows_refl)
next
  case (Cons t ts)
  define x1 where "x1 = put_block (title_bytes t) x"
  have f1: "\<not> failed (stream x1)"
    using Cons.prems(2) fold_put_block_sticky[of x1 ts] by (auto simp add: x1_def)
  have g1: "grows x x1"
    unfolding x1_def using Cons.prems(1) f1[unfolded x1_def] by (rule put_block_grows)
  then have "at_end (stream x1)" by (simp add: grows_def)
  from Cons.IH[OF this] Cons.prems(2)
  have "grows x1 (fold (\<lambda>t x. put_block (title_bytes t) x) ts x1)" by (simp add: x1_def)
  with g1 show ?case by (simp add: x1_def[symmetric] grows_trans)
qed

lemma writeHeader_ok:
  assumes sw: "need_to_swab (dw_ofs w) = need_to_swab (XDR host (stream (dw_ofs w)))"
      and a: "at_end (stream (dw_ofs w))"
      and e: "content (stream (dw_ofs w)) = []"
      and ts: "length (dw_timestep w) = sizeof_uint"
      and na: "dw_natoms w \<noteq> 0"
      and cn: "dw_current w \<le> dw_nsteps w"
      and nf: "\<not> failed (stream (dw_ofs (writeHeader host w)))"
  shows "writer_ok host (writeHeader host w)"
proof -
  define x where "x = dw_ofs w"
  define x1 where "x1 = put_scalar (int_scalar host (dw_natoms w)) x"
  define x2 where "x2 = put_scalar (int_scalar host (dw_nsteps w)) x1"
  define x3 where "x3 = put_scalar (dw_timestep w) x2"
  define x4 where "x4 = put_scalar (int_scalar host (if dw_has_box w then 1 else 0)) x3"
  define x5 where "x5 = fold (\<lambda>t x. put_block (title_bytes t) x) (dw_titles w) x4"
  have wh: "writeHeader host w = w\<lparr>dw_ofs := x5\<rparr>"
    unfolding writeHeader_def Let_def x5_def x4_def x3_def x2_def x1_def x_def by (rule refl)
  have f5: "\<not> failed (stream x5)" using nf by (simp add: wh)
  have f4: "\<not> failed (stream x4)" using f5 fold_put_block_sticky[of x4] by (auto simp add: x5_def)
  have f3: "\<not> failed (stream x3)" using f4 put_scalar_sticky[of x3] by (auto simp add: x4_def)
  have f2: "\<not> failed (stream x2)" using f3 put_scalar_sticky[of x2] by (auto simp add: x3_def)
  have f1: "\<not> failed (stream x1)" using f2 put_scalar_sticky[of x1] by (auto simp add: x2_def)
  have ax: "at_end (stream x)" using a by (simp add: x_def)
  have swx: "need_to_swab x = need_to_swab (XDR host (stream x))" using sw by (simp add: x_def)
  have s1: "stream x1 = stream_write (be32 (dw_natoms w)) (stream x)"
    and n1: "need_to_swab x1 = need_to_swab x"
    using wire_int[OF swx, of "dw_natoms w"]
    by (simp_all add: x1_def put_scalar_stream length_int_scalar)
  have c1: "content (stream x1) = be32 (dw_natoms w)" and a1: "at_end (stream x1)"
    using stream_write_at_end[OF ax, of "be32 (dw_natoms w)"]
          stream_write_at_end_at_end[OF ax, of "be32 (dw_natoms w)"] f1 e
    by (simp_all add: s1 x_def)
  have swx1: "need_to_swab x1 = need_to_swab (XDR host (stream x1))"
    using swx n1 by (simp add: XDR_def)
  have s2: "stream x2 = stream_write (be32 (dw_nsteps w)) (stream x1)"
    and n2: "need_to_swab x2 = need_to_swab x1"
    using wire_int[OF swx1, of "dw_nsteps w"]
    by (simp_all add: x2_def put_scalar_stream length_int_scalar)
  have c2: "content (stream x2) = be32 (dw_natoms w) @ be32 (dw_nsteps w)"
    and a2: "at_end (stream x2)"
    using stream_write_at_end[OF a1, of "be32 (dw_nsteps w)"]
          stream_write_at_end_at_end[OF a1, of "be32 (dw_nsteps w)"] f2 c1
    by (simp_all add: s2)
  have g3: "grows x2 x3"
    unfolding x3_def using ts a2 f3[unfolded x3_def] by (rule put_scalar_grows)
  then have a3: "at_end (stream x3)" by (simp add: grows_def)
  have g4: "grows x3 x4"
    unfolding x4_def using length_int_scalar a3 f4[unfolded x4_def] by (rule put_scalar_grows)
  then have a4: "at_end (stream x4)" by (simp add: grows_def)
  have g5: "grows x4 x5"
    unfolding x5_def using a4 f5[unfolded x5_def] by (rule fold_put_block_grows)
  have g: "grows x2 x5" using grows_trans[OF grows_trans[OF g3 g4] g5] .
  have l2: "length (content (stream x2)) = nsteps_offset + sizeof_uint"
    by (simp add: c2 length_be32 nsteps_offset_def)
  have h5: "header_nsteps (stream x5) = be32 (dw_nsteps w)"
    using grows_window[OF g, of nsteps_offset sizeof_uint] l2
    by (simp add: header_nsteps_def c2 length_be32 nsteps_offset_def)
  have n5: "need_to_swab x5 = need_to_swab x"
    using g n2 n1 by (simp add: grows_def)
  have "need_to_swab x5 = need_to_swab (XDR host (stream x5))"
    using n5 swx by (simp add: XDR_def)
  moreover have "at_end (stream x5)" using g by (simp add: grows_def)
  moreover have "nsteps_offset + sizeof_uint \<le> length (content (stream x5))"
    using g l2 by (simp add: grows_def)
  ultimately show ?thesis
    using h5 na cn by (simp add: writer_ok_def wh)
qed

lemma writeFrame_implicit:
  assumes fr: "writer_fresh host w"
      and ne: "ag_coords g \<noteq> []"
  shows "writeFrame host w g =
         writeFrame host (writeHeader host
            (setHeader (int (length (ag_coords g))) (dw_nsteps w) (dw_timestep w)
                (ag_box g \<noteq> None) w)) g"
proof -
  define w1 where "w1 = writeHeader host
            (setHeader (int (length (ag_coords g))) (dw_nsteps w) (dw_timestep w)
                (ag_box g \<noteq> None) w)"
  have n0: "dw_natoms w = 0" using fr by (simp add: writer_fresh_def)
  have n1: "dw_natoms w1 \<noteq> 0"
    using ne by (simp add: w1_def writeHeader_def Let_def setHeader_def)
  show ?thesis
    unfolding w1_def[symmetric]
    by (simp add: writeFrame_def[of host w] writeFrame_def[of host w1] n0 n1 w1_def[symmetric]
          del: not_None_eq)
qed

lemma first_frame_implicit:
  assumes fr: "writer_fresh host w"
      and ne: "ag_coords g \<noteq> []"
      and wf: "writeFrame host w g = Inr w'"
      and nf: "\<not> failed (stream (dw_ofs w'))"
  shows "writer_ok host w' \<and> framesWritten w' = 1
       \<and> header_nsteps (stream (dw_ofs w')) = be32 (max (dw_nsteps w) 1)"
proof -
  define w0 where "w0 = setHeader (int (length (ag_coords g))) (dw_nsteps w) (dw_timestep w)
                (ag_box g \<noteq> None) w"
  define w1 where "w1 = writeHeader host w0"
  have wf1: "writeFrame host w1 g = Inr w'"
    using wf writeFrame_implicit[OF fr ne] by (simp add: w1_def w0_def)
  have f1: "\<not> failed (stream (dw_ofs w1))"
    using writeFrame_sticky[OF _ wf1] nf by blast
  have ok1: "writer_ok host w1"
    unfolding w1_def
  proof (rule writeHeader_ok)
    show "need_to_swab (dw_ofs w0) = need_to_swab (XDR host (stream (dw_ofs w0)))"
      using fr by (simp add: writer_fresh_def w0_def setHeader_def)
    show "at_end (stream (dw_ofs w0))" using fr by (simp add: writer_fresh_def w0_def setHeader_def)
    show "content (stream (dw_ofs w0)) = []" using fr by (simp add: writer_fresh_def w0_def setHeader_def)
    show "length (dw_timestep w0) = sizeof_uint" using fr by (simp add: writer_fresh_def w0_def setHeader_def)
    show "dw_natoms w0 \<noteq> 0" using ne by (simp add: w0_def setHeader_def)
    show "dw_current w0 \<le> dw_nsteps w0" using fr by (simp add: writer_fresh_def w0_def setHeader_def)
    show "\<not> failed (stream (dw_ofs (writeHeader host w0)))" using f1 by (simp add: w1_def)
  qed
  have c1: "dw_current w1 = 0" "dw_nsteps w1 = dw_nsteps w"
    using fr by (simp_all add: w1_def writeHeader_def Let_def w0_def setHeader_def writer_fresh_def)
  from writeFrame_step[OF ok1 wf1 nf] c1 show ?thesis
    by (simp add: framesWritten_def)
qed


lemma title_default:
  "title_bytes ''AUTO GENERATED BY LOOS'' =
     [0x41, 0x55, 0x54, 0x4F, 0x20, 0x47, 0x45, 0x4E, 0x45, 0x52, 0x41, 0x54, 0x45, 0x44, 0x20,
      0x42, 0x59, 0x20, 0x4C, 0x4F, 0x4F, 0x53]"
  by (simp add: title_bytes_def)

lemma replicate_small:
  "replicate 1 x = [x]" "replicate 2 x = [x, x]" "replicate 3 x = [x, x, x]"
  "replicate 4 x = [x, x, x, x]"
  by (simp_all add: eval_nat_numeral)

lemmas dcd_eval = replicate_small
  writeHeader_def setHeader_def DCDWriter_def put_scalar_def put_block_def xdr_write_def
  xdr_write_block_def XDR_def int_scalar_def int_bytes_def le_bytes_def store_def swab_def
  sizeof_uint_def stream_write_def Let_def title_default

lemma ex_explicit_eq:
  "ex_explicit =
     \<lparr>dw_natoms = 1, dw_nsteps = 1, dw_timestep = ex_timestep, dw_current = 0, dw_has_box = False,
      dw_ofs = \<lparr>stream = \<lparr>content =
           [0, 0, 0, 1,  0, 0, 0, 1,  0x3A, 0x83, 0x12, 0x6F,  0, 0, 0, 0,
            0x41, 0x55, 0x54, 0x4F, 0x20, 0x47, 0x45, 0x4E, 0x45, 0x52, 0x41, 0x54, 0x45, 0x44,
            0x20, 0x42, 0x59, 0x20, 0x4C, 0x4F, 0x4F, 0x53, 0, 0],
           gpos = 0, ppos = 40, failed = False, cap = 1000\<rparr>, need_to_swab = True\<rparr>,
      dw_titles = [''AUTO GENERATED BY LOOS'']\<rparr>"
  by (simp add: ex_explicit_def ex_implicit_def ex_dcd_stream_def ex_timestep_def dcd_eval)


lemma ex_explicit_ok: "writer_ok Little ex_explicit"
  by (simp add: ex_explicit_eq writer_ok_def at_end_def header_nsteps_def nsteps_offset_def
        sizeof_uint_def be32_def le_bytes_def XDR_def int_bytes_def)

lemma ex_implicit_fresh: "writer_fresh Little ex_implicit"
  by (simp add: ex_implicit_def DCDWriter_def writer_fresh_def at_end_def ex_dcd_stream_def
        ex_timestep_def sizeof_uint_def XDR_def)

lemmas frame_eval =
  writeFrame_def put_frame_def axis_block_def patchHeader_def seekp_def tellp_def
  nsteps_offset_def ex_frame_def

lemma ex_two_frames: "writeFrames Little ex_explicit [ex_frame, ex_frame] = Inr ex_after_two"
  by (simp add: ex_explicit_eq ex_after_two_def frame_eval dcd_eval del: not_None_eq)

lemma ex_first_frame: "writeFrame Little ex_implicit ex_frame = Inr ex_after_first"
  by (simp add: ex_implicit_def ex_dcd_stream_def ex_timestep_def ex_after_first_def
        frame_eval dcd_eval del: not_None_eq)

section \<open>The claim about the writer\<close>

text \<open>
  C3. On a writer whose header is in the file, any number of completed \<open>writeFrame\<close>
  calls raise the frame counter by that number; once the counter exceeds the step
  count declared before, the step count field of the header holds the counter, and
  until then it holds the declared count. The write position is at the end of the file
  after the calls, where the frame record ended before the patch; the bytes before the
  field and every byte after it that was in the file before (every frame written
  earlier) are unchanged. In implicit mode the first frame writes the header, and the
  field then holds 1 (or the count declared, if larger).
\<close>

theorem self_extending_header:
  "(writer_ok host w \<and> writeFrames host w gs = Inr w' \<and> \<not> failed (stream (dw_ofs w')) \<longrightarrow>
      framesWritten w' = framesWritten w + int (length gs)
      \<and> (dw_nsteps w < framesWritten w' \<longrightarrow>
            header_nsteps (stream (dw_ofs w')) = be32 (framesWritten w'))
      \<and> (framesWritten w' \<le> dw_nsteps w \<longrightarrow>
            header_nsteps (stream (dw_ofs w')) = be32 (dw_nsteps w))
      \<and> ppos (stream (dw_ofs w')) = length (content (stream (dw_ofs w')))
      \<and> length (content (stream (dw_ofs w))) \<le> length (content (stream (dw_ofs w')))
      \<and> take nsteps_offset (content (stream (dw_ofs w')))
           = take nsteps_offset (content (stream (dw_ofs w)))
      \<and> (\<forall>i. nsteps_offset + sizeof_uint \<le> i \<and> i < length (content (stream (dw_ofs w)))
             \<longrightarrow> content (stream (dw_ofs w')) ! i = content (stream (dw_ofs w)) ! i)
      \<and> writer_ok host w')
   \<and> (writer_ok host w \<and> writeFrame host w g = Inr w1 \<and> \<not> failed (stream (dw_ofs w1)) \<longrightarrow>
        ppos (stream (dw_ofs w1)) = ppos (stream (put_frame (dw_has_box w) g (dw_ofs w))))
   \<and> (writer_fresh host v \<and> ag_coords g \<noteq> [] \<and> writeFrame host v g = Inr v'
        \<and> \<not> failed (stream (dw_ofs v')) \<longrightarrow>
        writer_ok host v' \<and> framesWritten v' = 1
        \<and> header_nsteps (stream (dw_ofs v')) = be32 (max (dw_nsteps v) 1))"
  apply (rule conjI)
   apply (rule impI, elim conjE, rule writeFrames_extend, assumption+)
  apply (rule conjI)
   apply (rule impI, elim conjE)
   apply (drule (2) writeFrame_step)
   apply simp
  apply (rule impI, elim conjE, rule first_frame_implicit, assumption+)
  done

text \<open>
  One step declared and two frames written: the header says 2. No header declared and
  one frame written: the header says 1.
\<close>

theorem self_extending_header_witness:
  "writer_ok Little ex_explicit
   \<and> writeFrames Little ex_explicit [ex_frame, ex_frame] = Inr ex_after_two
   \<and> framesWritten ex_after_two = 2
   \<and> header_nsteps (stream (dw_ofs ex_after_two)) = [0, 0, 0, 2]
   \<and> writer_fresh Little ex_implicit
   \<and> writeFrame Little ex_implicit ex_frame = Inr ex_after_first
   \<and> header_nsteps (stream (dw_ofs ex_after_first)) = [0, 0, 0, 1]"
proof -
  have n2: "\<not> failed (stream (dw_ofs ex_after_two))" by (simp add: ex_after_two_def)
  have n1: "\<not> failed (stream (dw_ofs ex_after_first))" by (simp add: ex_after_first_def)
  have ne: "ag_coords ex_frame \<noteq> []" by (simp add: ex_frame_def)
  have d: "dw_nsteps ex_explicit = 1" "dw_nsteps ex_implicit = 0"
    by (simp_all add: ex_explicit_eq ex_implicit_def DCDWriter_def)
  have b: "be32 2 = [0, 0, 0, 2]" "be32 1 = [0, 0, 0, 1]"
    by (simp_all add: be32_def le_bytes_def)
  note t = self_extending_header [of Little ex_explicit "[ex_frame, ex_frame]" ex_after_two
         ex_frame ex_after_first ex_implicit ex_after_first]
  note c1 = mp [OF conjunct1 [OF t] conjI [OF ex_explicit_ok conjI [OF ex_two_frames n2]]]
  note c3 = mp [OF conjunct2 [OF conjunct2 [OF t]]
                conjI [OF ex_implicit_fresh conjI [OF ne conjI [OF ex_first_frame n1]]]]
  have f2: "framesWritten ex_after_two = 2"
    by (simp add: framesWritten_def ex_after_two_def)
  from c1 f2 d b have h2: "header_nsteps (stream (dw_ofs ex_after_two)) = [0, 0, 0, 2]"
    by simp
  from c3 d b have h1: "header_nsteps (stream (dw_ofs ex_after_first)) = [0, 0, 0, 1]"
    by simp
  show ?thesis
    by (intro conjI ex_explicit_ok ex_two_frames f2 h2 ex_implicit_fresh ex_first_frame h1)
qed


end
